theory Spec2Isabelle
  imports Main
begin

section \<open>Python strings\<close>

text \<open>
  A Python \<open>str\<close> is a sequence of Unicode code points, so a string is a list of
  code points here, each a natural number. \<open>str\<close> turns an ASCII literal into one.
\<close>

type_synonym pystr = "nat list"

definition str :: "string \<Rightarrow> pystr" where
  "str s = map of_char s"

text \<open>
  \<open>str.lower()\<close>. The ASCII capitals go to their small letters. Of the code points
  outside ASCII exactly two have a lower-case form that holds an ASCII letter: the
  Kelvin sign U+212A becomes \<open>k\<close>, and U+0130 (capital I with dot above) becomes
  \<open>i\<close> followed by the combining dot U+0307. Every other code point outside ASCII is
  mapped by Python to code points outside ASCII again; the model leaves those as
  they are. \<open>slugify\<close>, the closed-state test and \<open>_fix_link\<close> compare the result with
  ASCII text only and cannot tell the difference; on ASCII strings \<open>lower\<close> is
  \<open>str.lower\<close> itself. The assignee lookup compares two lowered names with each
  other and does not use this function: it takes \<open>str.lower\<close> from the environment.
\<close>

definition lower_char :: "nat \<Rightarrow> pystr" where
  "lower_char c =
     (if 65 \<le> c \<and> c \<le> 90 then [c + 32]
      else if c = 8490 then [107]
      else if c = 304 then [105, 775]
      else [c])"

definition lower :: "pystr \<Rightarrow> pystr" where
  "lower s = concat (map lower_char s)"

text \<open>
  \<open>str.strip(chars)\<close> with the set of characters given as a predicate, and
  \<open>str.startswith\<close>, \<open>in\<close> on strings.
\<close>

definition strip :: "(nat \<Rightarrow> bool) \<Rightarrow> pystr \<Rightarrow> pystr" where
  "strip P s = rev (dropWhile P (rev (dropWhile P s)))"

fun startswith :: "pystr \<Rightarrow> pystr \<Rightarrow> bool" where
  "startswith s [] = True"
| "startswith [] (p # ps) = False"
| "startswith (c # cs) (p # ps) = (c = p \<and> startswith cs ps)"

fun contains :: "pystr \<Rightarrow> pystr \<Rightarrow> bool" where
  "contains [] p = (p = [])"
| "contains (c # cs) p = (startswith (c # cs) p \<or> contains cs p)"

section \<open>Regular-expression substitution\<close>

text \<open>
  \<open>re.sub(pattern, repl, string)\<close> scans the string from the left. At each position
  it tries the pattern; where the pattern matches it emits the replacement and
  goes on after the match, elsewhere it copies one character. A pattern is given
  by its matcher: from the character before the position (\<open>None\<close> at the start of
  the string; the look-behind and \<open>^\<close> read it) and the text from the position on,
  the matcher returns the replacement and the number of characters matched. The
  counter \<open>k\<close> is the number of characters of the last match still to be skipped.
  No pattern of this program matches the empty string.
\<close>

type_synonym matcher = "nat option \<Rightarrow> pystr \<Rightarrow> (pystr \<times> nat) option"

fun re_sub_from :: "matcher \<Rightarrow> nat option \<Rightarrow> nat \<Rightarrow> pystr \<Rightarrow> pystr" where
  "re_sub_from m prev k [] = []"
| "re_sub_from m prev k (c # cs) =
     (if 0 < k then re_sub_from m (Some c) (k - 1) cs
      else (case m prev (c # cs) of
              None \<Rightarrow> c # re_sub_from m (Some c) 0 cs
            | Some (rep, n) \<Rightarrow> rep @ re_sub_from m (Some c) (n - 1) cs))"

definition re_sub :: "matcher \<Rightarrow> pystr \<Rightarrow> pystr" where
  "re_sub m s = re_sub_from m None 0 s"

section \<open>TaigaService.slugify\<close>

text \<open>
  \<^verbatim>\<open>
  def slugify(self, text):
      text = text.lower()
      return re.sub(r'[^a-z0-9]+', '-', text).strip('-')
  \<close>
\<close>

definition is_slug_char :: "nat \<Rightarrow> bool" where
  "is_slug_char c = ((97 \<le> c \<and> c \<le> 122) \<or> (48 \<le> c \<and> c \<le> 57))"

text \<open>The pattern \<open>[^a-z0-9]+\<close> with the replacement \<open>-\<close>: a maximal run.\<close>

definition non_slug_run :: matcher where
  "non_slug_run prev s =
     (case takeWhile (\<lambda>c. \<not> is_slug_char c) s of
        [] \<Rightarrow> None
      | r # rs \<Rightarrow> Some ([45], length (r # rs)))"

definition slugify :: "pystr \<Rightarrow> pystr" where
  "slugify text = strip (\<lambda>c. c = 45) (re_sub non_slug_run (lower text))"

text \<open>
  The code points whose lower-case form holds a character of \<open>[a-z0-9]\<close>: the ASCII
  letters and digits, the Kelvin sign and U+0130. All of them are letters or digits.
\<close>

definition has_slug_form :: "nat \<Rightarrow> bool" where
  "has_slug_form c = ((65 \<le> c \<and> c \<le> 90) \<or> is_slug_char c \<or> c = 8490 \<or> c = 304)"

text \<open>No two hyphens stand next to each other.\<close>

fun no_double :: "pystr \<Rightarrow> bool" where
  "no_double (a # b # r) = (\<not> (a = 45 \<and> b = 45) \<and> no_double (b # r))"
| "no_double r = True"

section \<open>Python errors\<close>

text \<open>
  The exceptions the modelled code can raise. A function that can raise returns
  \<open>error + 'a\<close>, with \<open>Inl\<close> for the exception.
\<close>

datatype error =
    IndexError | ValueError | AttributeError | FileNotFoundError | ProjectNotConnected | RemoteError

text \<open>
  \<open>str.split(sep, maxsplit)\<close> for a separator of one character, and \<open>str.split(sep)\<close>:
  a string holds at most \<open>length s\<close> separators, so that bound never cuts a split short.
\<close>

fun split_max :: "nat \<Rightarrow> nat \<Rightarrow> pystr \<Rightarrow> pystr list" where
  "split_max sep 0 s = [s]"
| "split_max sep (Suc n) s =
     (case dropWhile (\<lambda>c. c \<noteq> sep) s of
        [] \<Rightarrow> [s]
      | c # r \<Rightarrow> takeWhile (\<lambda>c. c \<noteq> sep) s # split_max sep n r)"

definition split :: "nat \<Rightarrow> pystr \<Rightarrow> pystr list" where
  "split sep s = split_max sep (length s) s"

text \<open>
  \<open>re.sub\<close> with a function as replacement: the function may raise, and the
  first call that raises ends the substitution.
\<close>

type_synonym matcher_fn = "nat option \<Rightarrow> pystr \<Rightarrow> ((error + pystr) \<times> nat) option"

fun re_sub_fn_from :: "matcher_fn \<Rightarrow> nat option \<Rightarrow> nat \<Rightarrow> pystr \<Rightarrow> error + pystr" where
  "re_sub_fn_from m prev k [] = Inr []"
| "re_sub_fn_from m prev k (c # cs) =
     (if 0 < k then re_sub_fn_from m (Some c) (k - 1) cs
      else (case m prev (c # cs) of
              None \<Rightarrow>
                (case re_sub_fn_from m (Some c) 0 cs of
                   Inl e \<Rightarrow> Inl e
                 | Inr t \<Rightarrow> Inr (c # t))
            | Some (rep, n) \<Rightarrow>
                (case rep of
                   Inl e \<Rightarrow> Inl e
                 | Inr r \<Rightarrow>
                     (case re_sub_fn_from m (Some c) (n - 1) cs of
                        Inl e \<Rightarrow> Inl e
                      | Inr t \<Rightarrow> Inr (r @ t)))))"

definition re_sub_fn :: "matcher_fn \<Rightarrow> pystr \<Rightarrow> error + pystr" where
  "re_sub_fn m s = re_sub_fn_from m None 0 s"

text \<open>
  \<open>str.replace(old, new)\<close> for a non-empty \<open>old\<close>: the occurrences from the left,
  not overlapping.
\<close>

definition literal :: "pystr \<Rightarrow> pystr \<Rightarrow> matcher" where
  "literal old new prev s =
     (if old \<noteq> [] \<and> startswith s old then Some (new, length old) else None)"

definition replace :: "pystr \<Rightarrow> pystr \<Rightarrow> pystr \<Rightarrow> pystr" where
  "replace old new s = re_sub (literal old new) s"

text \<open>
  The class \<open>\s\<close> on a \<open>str\<close> pattern: the code points for which \<open>str.isspace\<close>
  holds. \<open>^\<close> under \<open>re.MULTILINE\<close> matches at the start of the string and after
  each newline.
\<close>

definition is_space :: "nat \<Rightarrow> bool" where
  "is_space c =
     ((9 \<le> c \<and> c \<le> 13) \<or> (28 \<le> c \<and> c \<le> 32) \<or> c = 133 \<or> c = 160 \<or> c = 5760 \<or>
      (8192 \<le> c \<and> c \<le> 8202) \<or> c = 8232 \<or> c = 8233 \<or> c = 8239 \<or> c = 8287 \<or>
      c = 12288)"

definition at_line_start :: "nat option \<Rightarrow> bool" where
  "at_line_start prev = (prev = None \<or> prev = Some 10)"

section \<open>JiraService.convert_markup\<close>

text \<open>
  Pass 1, \<^verbatim>\<open>re.sub(r'!([^!|]+)(?:\|[^!]*)?!', r'(Attachment: \1)', body)\<close>.
  After \<open>!\<close> (33) the name is the longest run free of \<open>!\<close> and \<open>|\<close> (124), not
  empty; then either \<open>!\<close> closes the marker, or \<open>|\<close> opens the parameters, which
  run up to the next \<open>!\<close>. A shorter name or shorter parameters are followed by a
  character that is neither, so backtracking finds no other match.
\<close>

definition image_marker :: matcher where
  "image_marker prev s =
     (case s of
        [] \<Rightarrow> None
      | c # cs \<Rightarrow>
          if c \<noteq> 33 then None
          else
            let name = takeWhile (\<lambda>d. d \<noteq> 33 \<and> d \<noteq> 124) cs;
                rest = dropWhile (\<lambda>d. d \<noteq> 33 \<and> d \<noteq> 124) cs
            in if name = [] then None
               else (case rest of
                       [] \<Rightarrow> None
                     | d # ds \<Rightarrow>
                         if d = 33
                         then Some (str ''(Attachment: '' @ name @ str '')'', length name + 2)
                         else (case dropWhile (\<lambda>e. e \<noteq> 33) ds of
                                 [] \<Rightarrow> None
                               | e # es \<Rightarrow>
                                   Some (str ''(Attachment: '' @ name @ str '')'',
                                         length name + length (takeWhile (\<lambda>e. e \<noteq> 33) ds) + 3))))"

text \<open>
  Pass 2, \<^verbatim>\<open>re.sub(r'\[([^\]]+)\]', _fix_link, body)\<close> with
  \<^verbatim>\<open>
  def _fix_link(match):
      inner = match.group(1)
      if inner == " " or inner.lower() == "x":
          return f"[{inner}]"
      content = inner.split('|')
      if len(content) == 1:
          return f"[{content[0]}]({content[0]})"
      return f"[{content[0]}]({content[1]})"
  \<close>
  Indexing a list out of range raises \<open>IndexError\<close>.
\<close>

definition fix_link :: "pystr \<Rightarrow> error + pystr" where
  "fix_link inner =
     (if inner = str '' '' \<or> lower inner = str ''x'' then Inr (str ''['' @ inner @ str '']'')
      else (case split 124 inner of
              [] \<Rightarrow> Inl IndexError
            | [c0] \<Rightarrow> Inr (str ''['' @ c0 @ str ''](''  @ c0 @ str '')'')
            | c0 # c1 # cs \<Rightarrow> Inr (str ''['' @ c0 @ str ''](''  @ c1 @ str '')'')))"

definition link_bracket :: matcher_fn where
  "link_bracket prev s =
     (case s of
        [] \<Rightarrow> None
      | c # cs \<Rightarrow>
          if c \<noteq> 91 then None
          else
            let inner = takeWhile (\<lambda>d. d \<noteq> 93) cs
            in if inner = [] then None
               else (case dropWhile (\<lambda>d. d \<noteq> 93) cs of
                       [] \<Rightarrow> None
                     | d # ds \<Rightarrow> Some (fix_link inner, length inner + 2)))"

text \<open>
  Pass 3, the lists:
  \<^verbatim>\<open>
  body = re.sub(r'^(\*\*+)\s+', lambda m: '  ' * (len(m.group(1)) - 1) + '* ', body, flags=re.MULTILINE)
  body = re.sub(r'^#\s+', '* ', body, flags=re.MULTILINE)
  \<close>
  At the start of a line, all the stars (42) of the run, two at least, and all the
  white space after them, one character at least. With fewer stars the next
  character is a star, not white space.
\<close>

definition star_list :: matcher where
  "star_list prev s =
     (let stars = takeWhile (\<lambda>c. c = 42) s;
          spaces = takeWhile is_space (dropWhile (\<lambda>c. c = 42) s)
      in if at_line_start prev \<and> 2 \<le> length stars \<and> spaces \<noteq> []
         then Some (concat (replicate (length stars - 1) (str ''  '')) @ str ''* '',
                    length stars + length spaces)
         else None)"

definition hash_list :: matcher where
  "hash_list prev s =
     (case s of
        [] \<Rightarrow> None
      | c # cs \<Rightarrow>
          let spaces = takeWhile is_space cs
          in if at_line_start prev \<and> c = 35 \<and> spaces \<noteq> []
             then Some (str ''* '', 1 + length spaces)
             else None)"

text \<open>
  Pass 4, the headings:
  \<^verbatim>\<open>
  body = re.sub(r'^h([1-6])\.\s+', lambda m: '#' * int(m.group(1)) + ' ', body, flags=re.MULTILINE)
  \<close>
  \<open>int\<close> on the one-character string of the group raises \<open>ValueError\<close> unless the
  character is a digit.
\<close>

definition int_of_digit :: "pystr \<Rightarrow> error + nat" where
  "int_of_digit s =
     (case s of
        [c] \<Rightarrow> if 48 \<le> c \<and> c \<le> 57 then Inr (c - 48) else Inl ValueError
      | _ \<Rightarrow> Inl ValueError)"

definition heading :: matcher_fn where
  "heading prev s =
     (case s of
        h # d # p # cs \<Rightarrow>
          let spaces = takeWhile is_space cs
          in if at_line_start prev \<and> h = 104 \<and> 49 \<le> d \<and> d \<le> 54 \<and> p = 46 \<and> spaces \<noteq> []
             then Some (case int_of_digit [d] of
                          Inl e \<Rightarrow> Inl e
                        | Inr n \<Rightarrow> Inr (replicate n 35 @ str '' ''),
                        3 + length spaces)
             else None
      | _ \<Rightarrow> None)"

text \<open>
  Pass 5, bold:
  \<^verbatim>\<open>
  body = re.sub(r'(?<!\*)\*([^* \n](?:[^*]*?[^* \n])?)\*(?!\*)', r'**\1**', body)
  \<close>
  Between the two stars the pattern admits no star, so the closing star is the
  first star after the opening one, whatever the lazy quantifier tries: the span is
  the run up to it. The span is not empty, its first and its last character are
  neither a space (32) nor a newline (10), no star stands before the opening star
  and none after the closing one.
\<close>

definition bold :: matcher where
  "bold prev s =
     (case s of
        [] \<Rightarrow> None
      | c # cs \<Rightarrow>
          let span = takeWhile (\<lambda>d. d \<noteq> 42) cs
          in if c = 42 \<and> prev \<noteq> Some 42 \<and> span \<noteq> [] \<and>
                hd span \<noteq> 32 \<and> hd span \<noteq> 10 \<and> last span \<noteq> 32 \<and> last span \<noteq> 10 \<and>
                (case dropWhile (\<lambda>d. d \<noteq> 42) cs of
                   [] \<Rightarrow> False
                 | d # [] \<Rightarrow> True
                 | d # e # es \<Rightarrow> e \<noteq> 42)
             then Some (str ''**'' @ span @ str ''**'', length span + 2)
             else None)"

text \<open>
  Pass 6, monospace: \<^verbatim>\<open>body = re.sub(r'\{\{(.+?)\}\}', r'`\1`', body)\<close>.
  \<open>lazy_until_close\<close> gives the number of characters the lazy \<open>.+?\<close> takes after
  its first one: it stops at the first \<open>}}\<close> and fails at a newline or at the end.
\<close>

fun lazy_until_close :: "pystr \<Rightarrow> nat option" where
  "lazy_until_close [] = None"
| "lazy_until_close (c # cs) =
     (if startswith (c # cs) (str ''}}'') then Some 0
      else if c = 10 then None
      else map_option Suc (lazy_until_close cs))"

definition monospace :: matcher where
  "monospace prev s =
     (case s of
        a # b # c # cs \<Rightarrow>
          if a = 123 \<and> b = 123 \<and> c \<noteq> 10
          then (case lazy_until_close cs of
                  None \<Rightarrow> None
                | Some n \<Rightarrow> Some (str ''`'' @ take (Suc n) (c # cs) @ str ''`'', n + 5))
          else None
      | _ \<Rightarrow> None)"

text \<open>
  Pass 7, the icons, by \<open>str.replace\<close> in the order of the source. The targets are
  U+2705, U+274C, U+26A0 U+FE0F, U+2139 U+FE0F, U+1F44D and U+1F44E.
\<close>

definition icons :: "pystr \<Rightarrow> pystr" where
  "icons body =
     replace (str ''(n)'') [128078]
       (replace (str ''(y)'') [128077]
         (replace (str ''(i)'') [8505, 65039]
           (replace (str ''(!)'') [9888, 65039]
             (replace (str ''(x)'') [10060]
               (replace (str ''(/)'') [9989] body)))))"

text \<open>
  Pass 8, the code fences:
  \<^verbatim>\<open>
  body = re.sub(r'\{code(?::([a-zA-Z0-9]+))?\}', r'```\1', body)
  body = body.replace('{code}', '```')
  body = re.sub(r'\{noformat\}', '```', body)
  \<close>
  A group that did not take part in the match is replaced by the empty string.
\<close>

definition is_alnum_ascii :: "nat \<Rightarrow> bool" where
  "is_alnum_ascii c = ((97 \<le> c \<and> c \<le> 122) \<or> (65 \<le> c \<and> c \<le> 90) \<or> (48 \<le> c \<and> c \<le> 57))"

definition code_fence :: matcher where
  "code_fence prev s =
     (if startswith s (str ''{code'')
      then (case drop 5 s of
              [] \<Rightarrow> None
            | c # cs \<Rightarrow>
                if c = 125 then Some (str ''```'', 6)
                else if c = 58
                then (let lang = takeWhile is_alnum_ascii cs
                      in (case dropWhile is_alnum_ascii cs of
                            [] \<Rightarrow> None
                          | d # ds \<Rightarrow>
                              if lang \<noteq> [] \<and> d = 125
                              then Some (str ''```'' @ lang, length lang + 7)
                              else None))
                else None)
      else None)"

text \<open>
  \<^verbatim>\<open>
  def convert_markup(self, body: str) -> str:
      if not body:
          return ""
      ...
      return body
  \<close>
\<close>

definition convert_markup :: "pystr \<Rightarrow> error + pystr" where
  "convert_markup body =
     (if body = [] then Inr []
      else
        (case re_sub_fn link_bracket (re_sub image_marker body) of
           Inl e \<Rightarrow> Inl e
         | Inr b2 \<Rightarrow>
             (case re_sub_fn heading (re_sub hash_list (re_sub star_list b2)) of
                Inl e \<Rightarrow> Inl e
              | Inr b4 \<Rightarrow>
                  Inr (re_sub (literal (str ''{noformat}'') (str ''```''))
                        (replace (str ''{code}'') (str ''```'')
                          (re_sub code_fence
                            (icons (re_sub monospace (re_sub bold b4)))))))))"

text \<open>
  \<^verbatim>\<open>
  def parse_comment(self, raw_comment: str) -> str:
      if not raw_comment:
          return ""
      parts = raw_comment.split(';', 2)
      if len(parts) < 3:
          return self.convert_markup(raw_comment)
      date, author_id, body = parts
      return self.convert_markup(body)
  \<close>
  Unpacking a list that has not exactly three parts raises \<open>ValueError\<close>.
\<close>

definition parse_comment :: "pystr \<Rightarrow> error + pystr" where
  "parse_comment raw_comment =
     (if raw_comment = [] then Inr []
      else (let parts = split_max 59 2 raw_comment
            in if length parts < 3 then convert_markup raw_comment
               else (case parts of
                       [date, author_id, body] \<Rightarrow> convert_markup body
                     | _ \<Rightarrow> Inl ValueError)))"

section \<open>The remote systems\<close>

text \<open>
  What the program does to the outside is recorded as a trace of events: the calls
  to the Taiga project, the download from Jira, the local file operations, and the
  lines written to the log and the console. A status, story, role or point is
  known by its identifier.
\<close>

datatype logline =
    StatusDeleted pystr
  | StatusNotDeleted pystr
  | StatusCreated pystr
  | StatusNotCreated pystr
  | DryRunSync
  | DryRunStory pystr
  | DryRunRow pystr "pystr option" "pystr option" nat nat
  | StoryCreated pystr
  | StoryFailed pystr
  | MissingCredentials
  | Downloaded pystr
  | DownloadFailed pystr

datatype event =
    DeleteStatus int
  | AddUserStoryStatus pystr pystr bool pystr
  | AddUserStory pystr pystr "int option" "int option"
  | UpdatePoints int int int
  | AddComment int pystr
  | Attach int pystr
  | Download pystr pystr
  | Unlink pystr
  | Print nat nat
  | Log logline

text \<open>
  The Taiga server decides how a call ends: from the trace so far and the call,
  \<open>None\<close> when the call raises, the identifier of the object it made otherwise
  (ignored for a call that makes none). The Jira server decides how a download
  ends: the file is written in full, nothing is written, or the transfer breaks
  after the local file was opened. \<open>render\<close> is the Markdown renderer, and
  \<open>str_lower\<close> is \<open>str.lower\<close> with the case tables of Unicode (it changes more than
  a thousand code points outside ASCII, and a capital sigma by its place in the
  word), which this theory does not hold: what is proved for every environment
  holds for the lower-casing of Python.
\<close>

datatype fetched = Fetched | NotFetched | Interrupted

record env =
  respond :: "event list \<Rightarrow> event \<Rightarrow> int option"
  fetch :: "event list \<Rightarrow> pystr \<Rightarrow> fetched"
  render :: "pystr \<Rightarrow> pystr"
  str_lower :: "pystr \<Rightarrow> pystr"

text \<open>
  A server that accepts every call and numbers the objects by the length of the
  trace, with every download complete and the renderer the identity. The names
  of the concrete runs are ASCII, where \<open>str.lower\<close> is \<open>lower\<close>.
\<close>

definition accepting :: env where
  "accepting = \<lparr>respond = (\<lambda>tr e. Some (1 + int (length tr))), fetch = (\<lambda>tr url. Fetched),
     render = (\<lambda>s. s), str_lower = lower\<rparr>"

section \<open>TaigaService\<close>

text \<open>
  The project object of the Taiga client holds the user-story statuses, roles and
  points it was fetched with at \<open>connect_project\<close>; the source reads
  \<open>self.project.us_statuses\<close> and never fetches or assigns it again.
  \<open>users_cache\<close> is a dictionary: its items in insertion order.
\<close>

record status =
  status_name :: pystr
  status_slug :: pystr
  status_id :: int

record project =
  us_statuses :: "status list"
  roles :: "int list"
  points :: "(pystr \<times> int) list"

record taiga_service =
  project :: "project option"
  users_cache :: "(pystr \<times> int) list"
  manual_user_map :: "(pystr \<times> pystr) list"

text \<open>
  \<^verbatim>\<open>
  def sync_statuses(self, csv_statuses, reset=False, dry_run=False):
      if not self.project:
          raise Exception("Project not connected")
      if dry_run:
          logging.info(f"[DRY RUN] Would sync statuses. Reset={reset}. New: {csv_statuses}")
          return {self.slugify(s): 1 for s in csv_statuses}
      if reset:
          for status in self.project.us_statuses:
              try:
                  status.delete()
                  logging.info(f"   Deleted: {status.name}")
              except Exception as e:
                  logging.warning(f"   Could not delete {status.name} (might be in use): {e}")
      status_map = {}
      colors = ["#70728F", "#E47C40", "#A58C43", "#DA6095", "#8E44AD", "#2ECC71", "#3498DB"]
      for i, name in enumerate(csv_statuses):
          slug = self.slugify(name)
          is_closed = name.lower() in ["done", "dev done", "closed", "ready for prod"]
          color = colors[i % len(colors)]
          found = next((s for s in self.project.us_statuses if s.slug == slug), None)
          if found:
              status_map[slug] = found.id
          else:
              try:
                  new_status = self.project.add_user_story_status(
                      name=name, slug=slug, is_closed=is_closed, color=color)
                  status_map[slug] = new_status.id
                  logging.info(f"Created status: {name}")
              except Exception as e:
                  logging.error(f"Failed to create status {name}: {e}")
      self.statuses_cache = status_map
      return status_map
  \<close>
  \<open>csv_statuses\<close> is a set; the list is its elements in the order the loop meets
  them. Nothing reads \<open>statuses_cache\<close> afterwards: the caller uses the result.
\<close>

definition colors :: "pystr list" where
  "colors = [str ''#70728F'', str ''#E47C40'', str ''#A58C43'', str ''#DA6095'',
             str ''#8E44AD'', str ''#2ECC71'', str ''#3498DB'']"

definition is_closed :: "pystr \<Rightarrow> bool" where
  "is_closed name =
     (lower name \<in> set [str ''done'', str ''dev done'', str ''closed'', str ''ready for prod''])"

fun delete_statuses :: "env \<Rightarrow> status list \<Rightarrow> event list \<Rightarrow> event list" where
  "delete_statuses E [] tr = tr"
| "delete_statuses E (s # ss) tr =
     (case respond E tr (DeleteStatus (status_id s)) of
        Some r \<Rightarrow>
          delete_statuses E ss
            (tr @ [DeleteStatus (status_id s), Log (StatusDeleted (status_name s))])
      | None \<Rightarrow>
          delete_statuses E ss
            (tr @ [DeleteStatus (status_id s), Log (StatusNotDeleted (status_name s))]))"

fun create_statuses ::
  "env \<Rightarrow> project \<Rightarrow> nat \<Rightarrow> pystr list \<Rightarrow> event list \<times> (pystr \<rightharpoonup> int) \<Rightarrow>
   event list \<times> (pystr \<rightharpoonup> int)" where
  "create_statuses E p i [] (tr, status_map) = (tr, status_map)"
| "create_statuses E p i (name # names) (tr, status_map) =
     (let slug = slugify name;
          color = colors ! (i mod length colors);
          call = AddUserStoryStatus name slug (is_closed name) color
      in case find (\<lambda>s. status_slug s = slug) (us_statuses p) of
           Some found \<Rightarrow>
             create_statuses E p (Suc i) names (tr, status_map(slug \<mapsto> status_id found))
         | None \<Rightarrow>
             (case respond E tr call of
                Some new_id \<Rightarrow>
                  create_statuses E p (Suc i) names
                    (tr @ [call, Log (StatusCreated name)], status_map(slug \<mapsto> new_id))
              | None \<Rightarrow>
                  create_statuses E p (Suc i) names
                    (tr @ [call, Log (StatusNotCreated name)], status_map)))"

definition sync_statuses ::
  "env \<Rightarrow> taiga_service \<Rightarrow> pystr list \<Rightarrow> bool \<Rightarrow> bool \<Rightarrow> event list \<Rightarrow>
   error + event list \<times> (pystr \<rightharpoonup> int)" where
  "sync_statuses E self csv_statuses reset dry_run tr =
     (case project self of
        None \<Rightarrow> Inl ProjectNotConnected
      | Some p \<Rightarrow>
          if dry_run
          then Inr (tr @ [Log DryRunSync], map_of (map (\<lambda>s. (slugify s, 1)) csv_statuses))
          else Inr (create_statuses E p 0 csv_statuses
                     (if reset then delete_statuses E (us_statuses p) tr else tr, Map.empty)))"

text \<open>The calls to the Taiga project among the events of a trace.\<close>

fun is_call :: "event \<Rightarrow> bool" where
  "is_call (DeleteStatus i) = True"
| "is_call (AddUserStoryStatus n s c k) = True"
| "is_call (AddUserStory t d s a) = True"
| "is_call (UpdatePoints s r p) = True"
| "is_call (AddComment s t) = True"
| "is_call (Attach s f) = True"
| "is_call e = False"

fun is_creation :: "event \<Rightarrow> bool" where
  "is_creation (AddUserStoryStatus n s c k) = True"
| "is_creation e = False"

text \<open>
  The creation the loop requests for the source name at position \<open>i\<close>, and the
  positions whose slug is not among the statuses of the project.
\<close>

definition creation_of :: "pystr list \<Rightarrow> nat \<Rightarrow> event" where
  "creation_of names i =
     AddUserStoryStatus (names ! i) (slugify (names ! i)) (is_closed (names ! i))
       (colors ! (i mod 7))"

definition missing :: "project \<Rightarrow> pystr list \<Rightarrow> nat list" where
  "missing p names =
     filter (\<lambda>i. find (\<lambda>s. status_slug s = slugify (names ! i)) (us_statuses p) = None)
       [0..<length names]"

text \<open>
  The assignee lookup of \<open>create_story\<close>:
  \<^verbatim>\<open>
  assignee_id = self.users_cache.get(assignee_full_name)
  if not assignee_id and assignee_full_name:
      mapped_name = self.manual_user_map.get(assignee_full_name)
      if mapped_name:
          assignee_id = self.users_cache.get(mapped_name)
      if not assignee_id:
          for cached_name, uid in self.users_cache.items():
              if assignee_full_name.lower() in cached_name.lower() or cached_name.lower() in assignee_full_name.lower():
                  assignee_id = uid
                  break
  \<close>
  The name is \<open>None\<close> when the row has no such column. \<open>not x\<close> holds of \<open>None\<close>, of
  the identifier 0 and of the empty string. \<open>fuzzy\<close> is the test of the loop, with
  \<open>str.lower\<close> as its first argument.
\<close>

definition falsy_id :: "int option \<Rightarrow> bool" where
  "falsy_id x = (case x of None \<Rightarrow> True | Some n \<Rightarrow> n = 0)"

definition falsy_str :: "pystr option \<Rightarrow> bool" where
  "falsy_str x = (case x of None \<Rightarrow> True | Some s \<Rightarrow> s = [])"

definition fuzzy :: "(pystr \<Rightarrow> pystr) \<Rightarrow> pystr \<Rightarrow> pystr \<times> int \<Rightarrow> bool" where
  "fuzzy lw name item =
     (contains (lw (fst item)) (lw name) \<or> contains (lw name) (lw (fst item)))"

definition resolve_assignee :: "env \<Rightarrow> taiga_service \<Rightarrow> pystr option \<Rightarrow> int option" where
  "resolve_assignee E self assignee_full_name =
     (case assignee_full_name of
        None \<Rightarrow> None
      | Some name \<Rightarrow>
          let assignee_id = map_of (users_cache self) name
          in if falsy_id assignee_id \<and> name \<noteq> []
             then
               let mapped_name = map_of (manual_user_map self) name;
                   assignee_id =
                     (if falsy_str mapped_name then assignee_id
                      else map_of (users_cache self) (the mapped_name))
               in if falsy_id assignee_id
                  then (case find (fuzzy (str_lower E) name) (users_cache self) of
                          None \<Rightarrow> assignee_id
                        | Some (cached_name, uid) \<Rightarrow> Some uid)
                  else assignee_id
             else assignee_id)"

text \<open>
  \<^verbatim>\<open>
  def create_story(self, title, description, status_id, assignee_full_name,
                   points_value=None, comment_map=None, dry_run=False):
      if dry_run:
          logging.info(f"[DRY RUN] Create Story: {title[:30]}... | StatusID: {status_id}")
          return None
      ... assignee lookup ...
      try:
          story = self.project.add_user_story(subject=title, description=description,
                                              status=status_id, assigned_to=assignee_id)
          if points_value and self.project.roles:
              role = self.project.roles[0]
              p_obj = next((p for p in self.project.points if str(p.value) == str(points_value)), None)
              if p_obj:
                  story.update(points={str(role.id): p_obj.id})
          if comment_map:
              for txt in comment_map:
                  story.add_comment(txt)
          time.sleep(0.1)
          return story
      except Exception as e:
          logging.error(f"Failed to create story '{title}': {e}")
          raise e
  \<close>
  A point of the project is the text of its value with its identifier. The result
  is the story, or \<open>None\<close> in a dry run, with the trace extended.
\<close>

fun add_comments :: "env \<Rightarrow> int \<Rightarrow> pystr list \<Rightarrow> event list \<Rightarrow> (error + unit) \<times> event list" where
  "add_comments E story [] tr = (Inr (), tr)"
| "add_comments E story (txt # txts) tr =
     (case respond E tr (AddComment story txt) of
        None \<Rightarrow> (Inl RemoteError, tr @ [AddComment story txt])
      | Some r \<Rightarrow> add_comments E story txts (tr @ [AddComment story txt]))"

definition update_points ::
  "env \<Rightarrow> project \<Rightarrow> int \<Rightarrow> pystr option \<Rightarrow> event list \<Rightarrow> (error + unit) \<times> event list" where
  "update_points E p story points_value tr =
     (if \<not> falsy_str points_value \<and> roles p \<noteq> []
      then (case find (\<lambda>pt. fst pt = the points_value) (points p) of
              None \<Rightarrow> (Inr (), tr)
            | Some p_obj \<Rightarrow>
                (case respond E tr (UpdatePoints story (hd (roles p)) (snd p_obj)) of
                   None \<Rightarrow> (Inl RemoteError, tr @ [UpdatePoints story (hd (roles p)) (snd p_obj)])
                 | Some r \<Rightarrow> (Inr (), tr @ [UpdatePoints story (hd (roles p)) (snd p_obj)])))
      else (Inr (), tr))"

definition create_story ::
  "env \<Rightarrow> taiga_service \<Rightarrow> pystr \<Rightarrow> pystr \<Rightarrow> int option \<Rightarrow> pystr option \<Rightarrow> pystr option \<Rightarrow>
   pystr list \<Rightarrow> bool \<Rightarrow> event list \<Rightarrow> (error + int option) \<times> event list" where
  "create_story E self title description status_ident assignee_full_name points_value comment_map
     dry_run tr =
     (if dry_run then (Inr None, tr @ [Log (DryRunStory (take 30 title))])
      else
        let assignee_id = resolve_assignee E self assignee_full_name
        in case project self of
             None \<Rightarrow> (Inl AttributeError, tr @ [Log (StoryFailed title)])
           | Some p \<Rightarrow>
               (case respond E tr (AddUserStory title description status_ident assignee_id) of
                  None \<Rightarrow>
                    (Inl RemoteError,
                     tr @ [AddUserStory title description status_ident assignee_id,
                           Log (StoryFailed title)])
                | Some story \<Rightarrow>
                    (case update_points E p story points_value
                            (tr @ [AddUserStory title description status_ident assignee_id]) of
                       (Inl e, tr1) \<Rightarrow> (Inl e, tr1 @ [Log (StoryFailed title)])
                     | (Inr u, tr1) \<Rightarrow>
                         (case add_comments E story comment_map tr1 of
                            (Inl e, tr2) \<Rightarrow> (Inl e, tr2 @ [Log (StoryFailed title)])
                          | (Inr u, tr2) \<Rightarrow> (Inr (Some story), tr2)))))"

text \<open>
  \<^verbatim>\<open>
  def attach_file(self, story, file_path):
      if story and file_path:
          story.attach(str(file_path))
  \<close>
  A path object is never false.
\<close>

definition attach_file ::
  "env \<Rightarrow> int option \<Rightarrow> pystr \<Rightarrow> event list \<Rightarrow> (error + unit) \<times> event list" where
  "attach_file E story file_path tr =
     (case story of
        None \<Rightarrow> (Inr (), tr)
      | Some s \<Rightarrow>
          (case respond E tr (Attach s file_path) of
             None \<Rightarrow> (Inl RemoteError, tr @ [Attach s file_path])
           | Some r \<Rightarrow> (Inr (), tr @ [Attach s file_path])))"

section \<open>JiraService.download_attachment and the local files\<close>

text \<open>
  The state of the run: the trace and the files in the local directory.
  \<^verbatim>\<open>
  def download_attachment(self, url, filename, target_dir="attachments"):
      if not self.username or not self.api_token:
          logging.warning("Skipping attachment download: Missing Jira Credentials")
          return None
      attachments_path = Path(target_dir)
      attachments_path.mkdir(exist_ok=True)
      sanitized_filename = filename.replace('\u202f', ' ').strip()
      local_path = attachments_path / sanitized_filename
      try:
          with self.session.get(url, stream=True, timeout=(10, 90)) as response:
              if response.status_code != 200:
                  return None
              with open(local_path, 'wb') as f:
                  for chunk in response.iter_content(chunk_size=1024 * 1024):
                      if chunk:
                          f.write(chunk)
              return local_path
      except ...:
          return None
  \<close>
  Every exception of the transfer is caught and gives \<open>None\<close>. The directory is
  taken to be there or creatable, and the path is the directory, a slash and the
  sanitized name. \<open>Fetched\<close> is the answer of a transfer whose local file was opened
  and written; under a name that cannot be opened (an empty name, a name with a
  directory part) \<open>open\<close> raises inside the \<open>try\<close> and the run is the one of the answer
  \<open>NotFetched\<close>. \<open>Path.unlink\<close> raises when the file is not there.
\<close>

record world =
  trace :: "event list"
  files :: "pystr set"

record jira_service =
  username :: "pystr option"
  api_token :: "pystr option"

definition download_attachment ::
  "env \<Rightarrow> jira_service \<Rightarrow> pystr \<Rightarrow> pystr \<Rightarrow> world \<Rightarrow> pystr option \<times> world" where
  "download_attachment E self url filename w =
     (if falsy_str (username self) \<or> falsy_str (api_token self)
      then (None, w\<lparr>trace := trace w @ [Log MissingCredentials]\<rparr>)
      else
        let sanitized_filename = strip is_space (replace [8239] [32] filename);
            local_path = str ''attachments/'' @ sanitized_filename
        in case fetch E (trace w) url of
             Fetched \<Rightarrow>
               (Some local_path,
                w\<lparr>trace := trace w @ [Download url filename, Log (Downloaded filename)],
                  files := insert local_path (files w)\<rparr>)
           | NotFetched \<Rightarrow>
               (None, w\<lparr>trace := trace w @ [Download url filename, Log (DownloadFailed url)]\<rparr>)
           | Interrupted \<Rightarrow>
               (None,
                w\<lparr>trace := trace w @ [Download url filename, Log (DownloadFailed url)],
                  files := insert local_path (files w)\<rparr>))"

definition unlink :: "pystr \<Rightarrow> world \<Rightarrow> (error + unit) \<times> world" where
  "unlink local_file w =
     (if local_file \<in> files w
      then (Inr (), w\<lparr>trace := trace w @ [Unlink local_file], files := files w - {local_file}\<rparr>)
      else (Inl FileNotFoundError, w))"

section \<open>The row loop of main\<close>

text \<open>
  A row is a dictionary from column names to values, in the order of the columns.
  \<open>config\<close> holds the flags of the module \<open>env\<close> and \<open>stats\<close> is the dictionary of the
  two counters.
\<close>

type_synonym row = "(pystr \<times> pystr) list"

record config =
  DRY_RUN :: bool
  DOWNLOAD_ATTACHMENTS :: bool

record stats =
  success :: nat
  failed :: nat

text \<open>
  \<^verbatim>\<open>
  comments = []
  for key, value in row.items():
      if value and ('Comment' in key or key.startswith('Comment')):
          parsed = jira_service.parse_comment(value)
          if parsed:
              comments.append(parsed)
  \<close>
\<close>

definition is_comment_field :: "pystr \<times> pystr \<Rightarrow> bool" where
  "is_comment_field item =
     (snd item \<noteq> [] \<and>
      (contains (fst item) (str ''Comment'') \<or> startswith (fst item) (str ''Comment'')))"

fun row_comments :: "row \<Rightarrow> error + pystr list" where
  "row_comments [] = Inr []"
| "row_comments (item # items) =
     (if is_comment_field item
      then (case parse_comment (snd item) of
              Inl e \<Rightarrow> Inl e
            | Inr parsed \<Rightarrow>
                (case row_comments items of
                   Inl e \<Rightarrow> Inl e
                 | Inr comments \<Rightarrow> Inr (if parsed \<noteq> [] then parsed # comments else comments)))
      else row_comments items)"

text \<open>
  \<^verbatim>\<open>
  attachment_cols = [v for k, v in row.items() if k.startswith('Attachment') and v]
  for attachment_field in attachment_cols:
      parts = attachment_field.split(';')
      if len(parts) >= 4:
          att_url = parts[-1]
          att_filename = parts[2]
          local_file = jira_service.download_attachment(att_url, att_filename)
          if local_file:
              taiga_service.attach_file(story, local_file)
              local_file.unlink()
  \<close>
\<close>

definition attachment_cols :: "row \<Rightarrow> pystr list" where
  "attachment_cols r =
     map snd (filter (\<lambda>item. startswith (fst item) (str ''Attachment'') \<and> snd item \<noteq> []) r)"

fun handle_attachments ::
  "env \<Rightarrow> jira_service \<Rightarrow> int option \<Rightarrow> pystr list \<Rightarrow> world \<Rightarrow> (error + unit) \<times> world" where
  "handle_attachments E jira story [] w = (Inr (), w)"
| "handle_attachments E jira story (attachment_field # rest) w =
     (let parts = split 59 attachment_field
      in if 4 \<le> length parts
         then (case download_attachment E jira (last parts) (parts ! 2) w of
                 (None, w1) \<Rightarrow> handle_attachments E jira story rest w1
               | (Some local_file, w1) \<Rightarrow>
                   (case attach_file E story local_file (trace w1) of
                      (Inl e, tr2) \<Rightarrow> (Inl e, w1\<lparr>trace := tr2\<rparr>)
                    | (Inr u, tr2) \<Rightarrow>
                        (case unlink local_file (w1\<lparr>trace := tr2\<rparr>) of
                           (Inl e, w3) \<Rightarrow> (Inl e, w3)
                         | (Inr u, w3) \<Rightarrow> handle_attachments E jira story rest w3)))
         else handle_attachments E jira story rest w)"

text \<open>
  The body of the \<open>try\<close> of the loop: the story is created, then the attachments
  are handled when \<open>DOWNLOAD_ATTACHMENTS\<close> is set.
  \<^verbatim>\<open>
  try:
      story = taiga_service.create_story(title=summary, description=description,
          status_id=status_id, assignee_full_name=assignee, points_value=points_val,
          comment_map=comments)
      if env.DOWNLOAD_ATTACHMENTS:
          ...
      logging.info(f"Created: {summary}")
      stats["success"] += 1
  except Exception as e:
      stats["failed"] += 1
  \<close>
\<close>

definition try_body ::
  "env \<Rightarrow> config \<Rightarrow> jira_service \<Rightarrow> taiga_service \<Rightarrow> row \<Rightarrow> pystr \<Rightarrow> pystr \<Rightarrow> int option \<Rightarrow>
   pystr option \<Rightarrow> pystr option \<Rightarrow> pystr list \<Rightarrow> world \<Rightarrow> (error + unit) \<times> world" where
  "try_body E cfg jira taiga r summary description status_ident assignee points_val comments w =
     (case create_story E taiga summary description status_ident assignee points_val comments
             False (trace w) of
        (Inl e, tr1) \<Rightarrow> (Inl e, w\<lparr>trace := tr1\<rparr>)
      | (Inr story, tr1) \<Rightarrow>
          if DOWNLOAD_ATTACHMENTS cfg
          then handle_attachments E jira story (attachment_cols r) (w\<lparr>trace := tr1\<rparr>)
          else (Inr (), w\<lparr>trace := tr1\<rparr>))"

text \<open>
  One turn of \<^verbatim>\<open>for i, row in enumerate(rows, 1)\<close>: \<open>row_fields\<close> are the values
  taken from the row before the \<open>try\<close>, \<open>progress\<close> is the line printed at every fifth
  row. An exception outside the \<open>try\<close> would leave the loop: the result is then \<open>Inl\<close>.
  \<^verbatim>\<open>
  summary = row.get('Summary', 'No Title')
  raw_status = row.get('Status')
  status_slug = taiga_service.slugify(raw_status) if raw_status else None
  status_id = taiga_statuses.get(status_slug)
  assignee = row.get('Assignee')
  raw_description = row.get('Description', '')
  description_md = jira_service.convert_markup(raw_description)
  description = markdown.markdown(description_md)
  points_val = row.get('Custom field (Story point estimate)')
  ... comments ...
  if i % 5 == 0: print(f"Processing {i}/{total_rows}...")
  if env.DRY_RUN:
      attachments = [v for k, v in row.items() if k.startswith('Attachment') and v]
      logging.info(f"[DRY RUN] {summary[:40]}... | Status: {raw_status} | Assignee: {assignee} | Attachments: {len(attachments)} | Comments: {len(comments)}")
      continue
  \<close>
\<close>

definition row_fields ::
  "env \<Rightarrow> (pystr \<rightharpoonup> int) \<Rightarrow> row \<Rightarrow>
   error + pystr \<times> pystr \<times> int option \<times> pystr option \<times> pystr option \<times> pystr list" where
  "row_fields E taiga_statuses r =
     (let summary = (case map_of r (str ''Summary'') of None \<Rightarrow> str ''No Title'' | Some s \<Rightarrow> s);
          raw_status = map_of r (str ''Status'');
          status_slug = (if falsy_str raw_status then None else Some (slugify (the raw_status)));
          status_ident = (case status_slug of None \<Rightarrow> None | Some slug \<Rightarrow> taiga_statuses slug);
          assignee = map_of r (str ''Assignee'');
          raw_description = (case map_of r (str ''Description'') of None \<Rightarrow> [] | Some d \<Rightarrow> d)
      in case convert_markup raw_description of
           Inl e \<Rightarrow> Inl e
         | Inr description_md \<Rightarrow>
             (let description = render E description_md;
                  points_val = map_of r (str ''Custom field (Story point estimate)'')
              in case row_comments r of
                   Inl e \<Rightarrow> Inl e
                 | Inr comments \<Rightarrow>
                     Inr (summary, description, status_ident, assignee, points_val, comments)))"

definition progress :: "nat \<Rightarrow> nat \<Rightarrow> world \<Rightarrow> world" where
  "progress total_rows i w =
     (if i mod 5 = 0 then w\<lparr>trace := trace w @ [Print i total_rows]\<rparr> else w)"

definition process_row ::
  "env \<Rightarrow> config \<Rightarrow> jira_service \<Rightarrow> taiga_service \<Rightarrow> (pystr \<rightharpoonup> int) \<Rightarrow> nat \<Rightarrow> nat \<Rightarrow> row \<Rightarrow>
   world \<times> stats \<Rightarrow> error + world \<times> stats" where
  "process_row E cfg jira taiga taiga_statuses total_rows i r ws =
     (case row_fields E taiga_statuses r of
        Inl e \<Rightarrow> Inl e
      | Inr (summary, description, status_ident, assignee, points_val, comments) \<Rightarrow>
          (let w0 = progress total_rows i (fst ws); st = snd ws
           in if DRY_RUN cfg
              then Inr (w0\<lparr>trace := trace w0 @
                          [Log (DryRunRow (take 40 summary) (map_of r (str ''Status'')) assignee
                                 (length (attachment_cols r)) (length comments))]\<rparr>,
                        st)
              else (case try_body E cfg jira taiga r summary description status_ident
                           assignee points_val comments w0 of
                      (Inl e, w1) \<Rightarrow> Inr (w1, st\<lparr>failed := failed st + 1\<rparr>)
                    | (Inr u, w1) \<Rightarrow>
                        Inr (w1\<lparr>trace := trace w1 @ [Log (StoryCreated summary)]\<rparr>,
                             st\<lparr>success := success st + 1\<rparr>))))"

fun process_rows ::
  "env \<Rightarrow> config \<Rightarrow> jira_service \<Rightarrow> taiga_service \<Rightarrow> (pystr \<rightharpoonup> int) \<Rightarrow> nat \<Rightarrow> nat \<Rightarrow> row list \<Rightarrow>
   world \<times> stats \<Rightarrow> error + world \<times> stats" where
  "process_rows E cfg jira taiga taiga_statuses total_rows i [] ws = Inr ws"
| "process_rows E cfg jira taiga taiga_statuses total_rows i (r # rows) ws =
     (case process_row E cfg jira taiga taiga_statuses total_rows i r ws of
        Inl e \<Rightarrow> Inl e
      | Inr ws1 \<Rightarrow> process_rows E cfg jira taiga taiga_statuses total_rows (Suc i) rows ws1)"

text \<open>
  \<^verbatim>\<open>
  stats = {"success": 0, "failed": 0}
  total_rows = len(rows)
  for i, row in enumerate(rows, 1): ...
  \<close>
\<close>

definition main_loop ::
  "env \<Rightarrow> config \<Rightarrow> jira_service \<Rightarrow> taiga_service \<Rightarrow> (pystr \<rightharpoonup> int) \<Rightarrow> row list \<Rightarrow> world \<Rightarrow>
   error + world \<times> stats" where
  "main_loop E cfg jira taiga taiga_statuses rows w =
     process_rows E cfg jira taiga taiga_statuses (length rows) 1 rows
       (w, \<lparr>success = 0, failed = 0\<rparr>)"

text \<open>
  For the statements about the loop: whether the \<open>try\<close> of a row raises in the
  world the run has reached, the number of rows of a run for which it does, and
  the kinds of events.
\<close>

definition try_raises ::
  "env \<Rightarrow> config \<Rightarrow> jira_service \<Rightarrow> taiga_service \<Rightarrow> (pystr \<rightharpoonup> int) \<Rightarrow> nat \<Rightarrow> nat \<Rightarrow> row \<Rightarrow>
   world \<Rightarrow> bool" where
  "try_raises E cfg jira taiga taiga_statuses total_rows i r w =
     (case row_fields E taiga_statuses r of
        Inl e \<Rightarrow> False
      | Inr (summary, description, status_ident, assignee, points_val, comments) \<Rightarrow>
          isl (fst (try_body E cfg jira taiga r summary description status_ident assignee
                      points_val comments (progress total_rows i w))))"

fun count_raises ::
  "env \<Rightarrow> config \<Rightarrow> jira_service \<Rightarrow> taiga_service \<Rightarrow> (pystr \<rightharpoonup> int) \<Rightarrow> nat \<Rightarrow> nat \<Rightarrow> row list \<Rightarrow>
   world \<times> stats \<Rightarrow> nat" where
  "count_raises E cfg jira taiga taiga_statuses total_rows i [] ws = 0"
| "count_raises E cfg jira taiga taiga_statuses total_rows i (r # rows) ws =
     (if try_raises E cfg jira taiga taiga_statuses total_rows i r (fst ws) then 1 else 0) +
     (case process_row E cfg jira taiga taiga_statuses total_rows i r ws of
        Inl e \<Rightarrow> 0
      | Inr ws1 \<Rightarrow> count_raises E cfg jira taiga taiga_statuses total_rows (Suc i) rows ws1)"

fun is_output :: "event \<Rightarrow> bool" where
  "is_output (Print i n) = True"
| "is_output (Log l) = True"
| "is_output e = False"

fun is_story_call :: "event \<Rightarrow> bool" where
  "is_story_call (AddUserStory t d s a) = True"
| "is_story_call e = False"

fun is_add_comment :: "event \<Rightarrow> bool" where
  "is_add_comment (AddComment s t) = True"
| "is_add_comment e = False"

text \<open>The text \<open>parse_comment\<close> returns for a field.\<close>

definition parsed_comment :: "pystr \<Rightarrow> pystr" where
  "parsed_comment v = (case parse_comment v of Inl e \<Rightarrow> [] | Inr t \<Rightarrow> t)"

text \<open>
  Objects for the concrete runs: a server that accepts every call but the upload of
  a file, which raises; a Jira service with credentials; a Taiga service connected
  to a project without statuses, roles or points; a row with a title and one
  attachment field; and the world before the run.
\<close>

definition upload_refused :: env where
  "upload_refused =
     \<lparr>respond = (\<lambda>tr e. case e of Attach s f \<Rightarrow> None | _ \<Rightarrow> Some 1),
      fetch = (\<lambda>tr url. Fetched), render = (\<lambda>s. s), str_lower = lower\<rparr>"

definition jira_with_credentials :: jira_service where
  "jira_with_credentials = \<lparr>username = Some (str ''user''), api_token = Some (str ''token'')\<rparr>"

definition taiga_connected :: taiga_service where
  "taiga_connected =
     \<lparr>project = Some \<lparr>us_statuses = [], roles = [], points = []\<rparr>, users_cache = [],
      manual_user_map = []\<rparr>"

definition attachment_row :: row where
  "attachment_row =
     [(str ''Summary'', str ''S''), (str ''Attachment'', str ''d;a;f.png;http://u'')]"

definition plain_row :: row where
  "plain_row = [(str ''Summary'', str ''T'')]"

definition world0 :: world where
  "world0 = \<lparr>trace = [], files = {}\<rparr>"

section \<open>Properties of slugify\<close>

lemma non_slug_prev: "re_sub_from non_slug_run p k s = re_sub_from non_slug_run None k s"
  by (induction s arbitrary: p k) (simp_all add: non_slug_run_def)

lemma re_sub_from_skip:
  "k \<le> length s \<Longrightarrow> re_sub_from non_slug_run None k s = re_sub_from non_slug_run None 0 (drop k s)"
proof (induction s arbitrary: k)
  case Nil
  then show ?case by simp
next
  case (Cons c cs)
  show ?case
  proof (cases k)
    case 0
    then show ?thesis by simp
  next
    case (Suc j)
    with Cons.prems have "j \<le> length cs" by simp
    from Cons.IH [OF this] Suc show ?thesis
      by (simp add: non_slug_prev [of "Some c"])
  qed
qed

lemma sub_slug_Nil: "re_sub non_slug_run [] = []"
  by (simp add: re_sub_def)

lemma sub_slug_Cons:
  "re_sub non_slug_run (c # cs) =
     (if is_slug_char c then c # re_sub non_slug_run cs
      else 45 # re_sub non_slug_run (dropWhile (\<lambda>d. \<not> is_slug_char d) cs))"
proof (cases "is_slug_char c")
  case True
  then show ?thesis
    by (simp add: re_sub_def non_slug_run_def non_slug_prev [of "Some c"])
next
  case False
  have "length (takeWhile (\<lambda>d. \<not> is_slug_char d) cs) \<le> length cs"
    by (rule length_takeWhile_le)
  from re_sub_from_skip [OF this] False show ?thesis
    by (simp add: re_sub_def non_slug_run_def non_slug_prev [of "Some c"] dropWhile_eq_drop)
qed

lemma sub_slug_chars: "c \<in> set (re_sub non_slug_run s) \<Longrightarrow> is_slug_char c \<or> c = 45"
proof (induction s arbitrary: c rule: length_induct)
  case (1 s)
  show ?case
  proof (cases s)
    case Nil
    with "1.prems" show ?thesis by (simp add: sub_slug_Nil)
  next
    case (Cons d ds)
    have "length (dropWhile (\<lambda>d. \<not> is_slug_char d) ds) < length s"
      using Cons by (simp add: le_imp_less_Suc length_dropWhile_le)
    moreover have "length ds < length s" using Cons by simp
    ultimately show ?thesis
      using "1.IH" "1.prems" Cons by (auto simp: sub_slug_Cons split: if_splits)
  qed
qed


lemma no_double_Cons:
  "no_double (a # xs) = (no_double xs \<and> (xs = [] \<or> \<not> (a = 45 \<and> hd xs = 45)))"
  by (cases xs) auto

lemma no_double_append:
  "no_double (xs @ ys) =
     (no_double xs \<and> no_double ys \<and> (xs = [] \<or> ys = [] \<or> \<not> (last xs = 45 \<and> hd ys = 45)))"
  by (induction xs) (auto simp: no_double_Cons hd_append)

lemma no_double_rev: "no_double (rev xs) = no_double xs"
  by (induction xs) (auto simp: no_double_append no_double_Cons last_rev)

lemma no_double_dropWhile: "no_double xs \<Longrightarrow> no_double (dropWhile P xs)"
proof -
  assume "no_double xs"
  then have "no_double (takeWhile P xs @ dropWhile P xs)" by simp
  then show ?thesis unfolding no_double_append by blast
qed

lemma no_double_strip: "no_double xs \<Longrightarrow> no_double (strip P xs)"
  by (simp add: strip_def no_double_rev no_double_dropWhile)

lemma set_strip: "set (strip P xs) \<subseteq> set xs"
proof -
  have "set (dropWhile P (rev (dropWhile P xs))) \<subseteq> set (dropWhile P xs)"
    using set_dropWhileD [of _ P "rev (dropWhile P xs)"] by auto
  moreover have "set (dropWhile P xs) \<subseteq> set xs"
    using set_dropWhileD [of _ P xs] by auto
  ultimately show ?thesis by (simp add: strip_def)
qed

lemma strip_ends:
  assumes "strip P xs \<noteq> []"
  shows "\<not> P (hd (strip P xs)) \<and> \<not> P (last (strip P xs))"
proof -
  let ?t = "dropWhile P xs"
  let ?u = "dropWhile P (rev ?t)"
  from assms have u: "?u \<noteq> []" by (simp add: strip_def)
  have t: "?t \<noteq> []"
  proof
    assume "?t = []"
    then have "?u = dropWhile P []" by (simp only: rev.simps)
    then have "?u = []" by (simp only: dropWhile.simps)
    with u show False by simp
  qed
  have "\<not> P (hd ?u)" using u by (rule hd_dropWhile)
  then have l: "\<not> P (last (strip P xs))" using u by (simp add: strip_def last_rev)
  have "rev ?t = takeWhile P (rev ?t) @ ?u" by simp
  then have "last (rev ?t) = last ?u" using u by (metis last_appendR)
  then have "last ?u = hd ?t" using t by (simp add: last_rev)
  moreover have "\<not> P (hd ?t)" using t by (rule hd_dropWhile)
  ultimately have "\<not> P (hd (strip P xs))" using u by (simp add: strip_def hd_rev)
  with l show ?thesis by simp
qed

lemma strip_id:
  assumes "xs = [] \<or> (\<not> P (hd xs) \<and> \<not> P (last xs))"
  shows "strip P xs = xs"
proof (cases xs)
  case Nil
  then show ?thesis by (simp add: strip_def)
next
  case (Cons a as)
  with assms have h: "\<not> P (hd xs)" and l: "\<not> P (last xs)" by auto
  from h Cons have "dropWhile P xs = xs" by simp
  moreover have "dropWhile P (rev xs) = rev xs"
  proof (cases "rev xs")
    case Nil
    then show ?thesis by simp
  next
    case (Cons b bs)
    then have "b = hd (rev xs)" by simp
    also have "\<dots> = last xs" using \<open>xs = a # as\<close> by (simp add: hd_rev)
    finally have "\<not> P b" using l by simp
    with Cons show ?thesis by simp
  qed
  ultimately show ?thesis by (simp add: strip_def)
qed


lemma hyphen_not_slug: "\<not> is_slug_char 45"
  by (simp add: is_slug_char_def)

lemma sub_slug_hd:
  "t \<noteq> [] \<Longrightarrow> is_slug_char (hd t) \<Longrightarrow> re_sub non_slug_run t \<noteq> [] \<and> hd (re_sub non_slug_run t) = hd t"
  by (cases t) (simp_all add: sub_slug_Cons)

lemma sub_slug_after_run:
  "re_sub non_slug_run (dropWhile (\<lambda>d. \<not> is_slug_char d) cs) = [] \<or>
   hd (re_sub non_slug_run (dropWhile (\<lambda>d. \<not> is_slug_char d) cs)) \<noteq> 45"
proof (cases "dropWhile (\<lambda>d. \<not> is_slug_char d) cs = []")
  case True
  show ?thesis unfolding True sub_slug_Nil by simp
next
  case False
  then have "is_slug_char (hd (dropWhile (\<lambda>d. \<not> is_slug_char d) cs))"
    using hd_dropWhile [of "\<lambda>d. \<not> is_slug_char d" cs] by simp
  with False sub_slug_hd hyphen_not_slug show ?thesis by metis
qed

lemma sub_slug_no_double: "no_double (re_sub non_slug_run s)"
proof (induction s rule: length_induct)
  case (1 s)
  show ?case
  proof (cases s)
    case Nil
    then show ?thesis by (simp add: sub_slug_Nil)
  next
    case (Cons c cs)
    have a: "no_double (re_sub non_slug_run (dropWhile (\<lambda>d. \<not> is_slug_char d) cs))"
      using "1.IH" Cons by (simp add: le_imp_less_Suc length_dropWhile_le)
    have b: "no_double (re_sub non_slug_run cs)"
      using "1.IH" Cons by simp
    show ?thesis
    proof (cases "is_slug_char c")
      case True
      then have "c \<noteq> 45" using hyphen_not_slug by auto
      with True b Cons show ?thesis by (simp add: sub_slug_Cons no_double_Cons)
    next
      case False
      with a sub_slug_after_run [of cs] Cons show ?thesis
        by (auto simp: sub_slug_Cons no_double_Cons)
    qed
  qed
qed

lemma sub_slug_fixed:
  "\<forall>c\<in>set t. is_slug_char c \<or> c = 45 \<Longrightarrow> no_double t \<Longrightarrow> re_sub non_slug_run t = t"
proof (induction t)
  case Nil
  then show ?case by (simp add: sub_slug_Nil)
next
  case (Cons c cs)
  from Cons.prems have nd: "no_double cs" by (simp add: no_double_Cons)
  with Cons have ih: "re_sub non_slug_run cs = cs" by simp
  show ?case
  proof (cases "is_slug_char c")
    case True
    with ih show ?thesis by (simp add: sub_slug_Cons)
  next
    case False
    with Cons.prems have c: "c = 45" by simp
    have "dropWhile (\<lambda>d. \<not> is_slug_char d) cs = cs"
    proof (cases cs)
      case Nil
      then show ?thesis by simp
    next
      case (Cons d ds)
      with Cons.prems c \<open>no_double (c # cs)\<close> have "d \<noteq> 45" by simp
      moreover from Cons Cons.prems \<open>\<forall>c\<in>set (c # cs). is_slug_char c \<or> c = 45\<close>
      have "is_slug_char d \<or> d = 45" by simp
      ultimately show ?thesis using Cons by simp
    qed
    with False c ih show ?thesis by (simp add: sub_slug_Cons)
  qed
qed

lemma lower_fixed: "\<forall>c\<in>set t. is_slug_char c \<or> c = 45 \<Longrightarrow> lower t = t"
  by (induction t) (auto simp: lower_def lower_char_def is_slug_char_def)

lemma sub_slug_no_slug:
  "\<forall>c\<in>set t. \<not> is_slug_char c \<Longrightarrow> re_sub non_slug_run t = (if t = [] then [] else [45])"
proof (cases t)
  case Nil
  then show ?thesis by (simp add: sub_slug_Nil)
next
  case (Cons c cs)
  assume a: "\<forall>c\<in>set t. \<not> is_slug_char c"
  with Cons have e: "dropWhile (\<lambda>d. \<not> is_slug_char d) cs = []" by simp
  from a Cons have "\<not> is_slug_char c" by simp
  then have "re_sub non_slug_run (c # cs) = [45]"
    unfolding sub_slug_Cons e sub_slug_Nil by simp
  with Cons show ?thesis by simp
qed

lemma lower_char_no_slug: "\<not> has_slug_form c \<Longrightarrow> lower_char c = [c] \<and> \<not> is_slug_char c"
  by (simp add: has_slug_form_def lower_char_def)

lemma lower_no_slug:
  "\<forall>c\<in>set s. \<not> has_slug_form c \<Longrightarrow> \<forall>c\<in>set (lower s). \<not> is_slug_char c"
  by (induction s) (simp_all add: lower_def lower_char_no_slug)

lemma slugify_chars: "c \<in> set (slugify s) \<Longrightarrow> is_slug_char c \<or> c = 45"
  using set_strip [of "\<lambda>c. c = 45" "re_sub non_slug_run (lower s)"] sub_slug_chars [of c "lower s"]
  by (auto simp: slugify_def)

lemma slugify_no_double: "no_double (slugify s)"
  by (simp add: slugify_def no_double_strip sub_slug_no_double)

lemma slugify_ends: "slugify s \<noteq> [] \<Longrightarrow> hd (slugify s) \<noteq> 45 \<and> last (slugify s) \<noteq> 45"
  using strip_ends [of "\<lambda>c. c = 45" "re_sub non_slug_run (lower s)"] by (simp add: slugify_def)

lemma slugify_fixed:
  assumes "\<forall>c\<in>set t. is_slug_char c \<or> c = 45" and "no_double t"
    and "t = [] \<or> (hd t \<noteq> 45 \<and> last t \<noteq> 45)"
  shows "slugify t = t"
proof -
  have "lower t = t" using assms(1) by (rule lower_fixed)
  moreover have "re_sub non_slug_run t = t" using assms(1,2) by (rule sub_slug_fixed)
  moreover have "strip (\<lambda>c. c = 45) t = t" using assms(3) by (intro strip_id) simp
  ultimately show ?thesis by (simp add: slugify_def)
qed

text \<open>
  Claim C9. For every string \<open>s\<close>, \<open>slugify s\<close> holds only characters of
  \<open>[a-z0-9-]\<close> (45 is the hyphen), neither starts nor ends with a hyphen, and is a
  fixed point of \<open>slugify\<close>; an input none of whose characters is a letter or digit
  with a lower-case form in \<open>[a-z0-9]\<close> gives the empty string. Being a function,
  \<open>slugify\<close> gives the same key for the same input.
\<close>

theorem slugify_properties:
  "(\<forall>c\<in>set (slugify s). is_slug_char c \<or> c = 45) \<and>
   (slugify s \<noteq> [] \<longrightarrow> hd (slugify s) \<noteq> 45 \<and> last (slugify s) \<noteq> 45) \<and>
   slugify (slugify s) = slugify s \<and>
   ((\<forall>c\<in>set s. \<not> has_slug_form c) \<longrightarrow> slugify s = [])"
proof (intro conjI impI)
  show "\<forall>c\<in>set (slugify s). is_slug_char c \<or> c = 45"
    using slugify_chars by blast
next
  assume "slugify s \<noteq> []"
  then show "hd (slugify s) \<noteq> 45" using slugify_ends by blast
next
  assume "slugify s \<noteq> []"
  then show "last (slugify s) \<noteq> 45" using slugify_ends by blast
next
  show "slugify (slugify s) = slugify s"
    using slugify_chars slugify_no_double slugify_ends by (intro slugify_fixed) blast+
next
  assume "\<forall>c\<in>set s. \<not> has_slug_form c"
  then have "\<forall>c\<in>set (lower s). \<not> is_slug_char c" by (rule lower_no_slug)
  then have "re_sub non_slug_run (lower s) = (if lower s = [] then [] else [45])"
    by (rule sub_slug_no_slug)
  then show "slugify s = []" by (simp add: slugify_def strip_def)
qed

theorem slugify_properties_witness:
  "slugify (str ''  Dev / Done!'') = str ''dev-done'' \<and>
   slugify (slugify (str ''  Dev / Done!'')) = str ''dev-done'' \<and>
   slugify (str '' -- !? '') = []"
proof -
  have a: "slugify (str ''  Dev / Done!'') = str ''dev-done''"
    by (simp add: slugify_def str_def lower_def lower_char_def re_sub_def non_slug_run_def
        is_slug_char_def strip_def)
  have b: "\<forall>c\<in>set (str '' -- !? ''). \<not> has_slug_form c"
    by (simp add: str_def has_slug_form_def is_slug_char_def)
  note p = slugify_properties [of "str ''  Dev / Done!''"]
  note q = slugify_properties [of "str '' -- !? ''"]
  from p have "slugify (slugify (str ''  Dev / Done!'')) = slugify (str ''  Dev / Done!'')"
    by (elim conjE)
  moreover from q have "(\<forall>c\<in>set (str '' -- !? ''). \<not> has_slug_form c) \<longrightarrow> slugify (str '' -- !? '') = []"
    by (elim conjE)
  ultimately show ?thesis using a b by (simp only: simp_thms)
qed


section \<open>Properties of convert_markup\<close>

lemma split_max_not_Nil: "split_max sep n s \<noteq> []"
  by (cases n) (simp_all split: list.split)

lemma fix_link_returns: "\<exists>r. fix_link inner = Inr r"
proof (cases "split 124 inner")
  case Nil
  then show ?thesis by (simp add: split_def split_max_not_Nil)
next
  case (Cons c0 cs)
  then show ?thesis by (cases cs) (simp_all add: fix_link_def)
qed

lemma link_bracket_returns: "link_bracket prev s = Some (rep, n) \<Longrightarrow> \<exists>r. rep = Inr r"
  using fix_link_returns
  by (auto simp: link_bracket_def Let_def split: list.splits if_splits)

lemma heading_returns: "heading prev s = Some (rep, n) \<Longrightarrow> \<exists>r. rep = Inr r"
  by (auto simp: heading_def int_of_digit_def Let_def split: list.splits if_splits)

lemma re_sub_fn_from_returns:
  assumes "\<And>prev s rep n. m prev s = Some (rep, n) \<Longrightarrow> \<exists>r. rep = Inr r"
  shows "\<exists>t. re_sub_fn_from m prev k s = Inr t"
proof (induction s arbitrary: prev k)
  case Nil
  show ?case by simp
next
  case (Cons c cs)
  show ?case
  proof (cases "0 < k")
    case True
    with Cons [of "Some c" "k - 1"] show ?thesis by simp
  next
    case False
    note k = this
    show ?thesis
    proof (cases "m prev (c # cs)")
      case None
      with k Cons [of "Some c" 0] show ?thesis by auto
    next
      case (Some a)
      obtain rep n where a: "a = (rep, n)" by (cases a)
      with Some assms obtain r where "rep = Inr r" by blast
      with Some a k Cons [of "Some c" "n - 1"] show ?thesis by auto
    qed
  qed
qed

lemma convert_markup_returns: "\<exists>r. convert_markup body = Inr r"
proof -
  obtain b2 where b2: "re_sub_fn link_bracket (re_sub image_marker body) = Inr b2"
    unfolding re_sub_fn_def using re_sub_fn_from_returns [of link_bracket] link_bracket_returns
    by blast
  obtain b4 where "re_sub_fn heading (re_sub hash_list (re_sub star_list b2)) = Inr b4"
    unfolding re_sub_fn_def using re_sub_fn_from_returns [of heading] heading_returns
    by blast
  with b2 show ?thesis by (simp add: convert_markup_def)
qed

lemma replicate_numeral: "replicate (numeral k) x = x # replicate (pred_numeral k) x"
  by (simp add: numeral_eq_Suc)

lemmas convert_markup_eval = convert_markup_def re_sub_def re_sub_fn_def str_def image_marker_def
  link_bracket_def fix_link_def split_def lower_def lower_char_def star_list_def hash_list_def
  heading_def int_of_digit_def bold_def monospace_def icons_def replace_def literal_def
  code_fence_def is_space_def at_line_start_def is_alnum_ascii_def replicate_numeral

text \<open>
  Claim C1. \<open>convert_markup\<close> returns a string for every input, never an
  exception; the empty string gives the empty string; and the examples of the
  specification come out as stated: bold, the bullet that stays a bullet (the text
  is unchanged, so no bold is introduced), the heading, the link, the two checkbox
  brackets, monospace, and the check mark U+2705 (code point 9989).
\<close>

theorem convert_markup_examples:
  "(\<exists>r. convert_markup s = Inr r) \<and>
   convert_markup (str '''') = Inr (str '''') \<and>
   convert_markup (str ''*bold*'') = Inr (str ''**bold**'') \<and>
   convert_markup (str ''* not bold'') = Inr (str ''* not bold'') \<and>
   convert_markup (str ''h2. Title'') = Inr (str ''## Title'') \<and>
   convert_markup (str ''[Confluence|https://x]'') = Inr (str ''[Confluence](https://x)'') \<and>
   convert_markup (str ''[ ]'') = Inr (str ''[ ]'') \<and>
   convert_markup (str ''[x]'') = Inr (str ''[x]'') \<and>
   convert_markup (str ''{{code}}'') = Inr (str ''`code`'') \<and>
   convert_markup (str ''(/)'') = Inr [9989]"
proof (intro conjI)
  show "\<exists>r. convert_markup s = Inr r" by (rule convert_markup_returns)
  show "convert_markup (str '''') = Inr (str '''')"
    by (simp add: convert_markup_eval)
  show "convert_markup (str ''*bold*'') = Inr (str ''**bold**'')"
    by (simp add: convert_markup_eval)
  show "convert_markup (str ''* not bold'') = Inr (str ''* not bold'')"
    by (simp add: convert_markup_eval)
  show "convert_markup (str ''h2. Title'') = Inr (str ''## Title'')"
    by (simp add: convert_markup_eval)
  show "convert_markup (str ''[Confluence|https://x]'') = Inr (str ''[Confluence](https://x)'')"
    by (simp add: convert_markup_eval)
  show "convert_markup (str ''[ ]'') = Inr (str ''[ ]'')"
    by (simp add: convert_markup_eval)
  show "convert_markup (str ''[x]'') = Inr (str ''[x]'')"
    by (simp add: convert_markup_eval)
  show "convert_markup (str ''{{code}}'') = Inr (str ''`code`'')"
    by (simp add: convert_markup_eval)
  show "convert_markup (str ''(/)'') = Inr [9989]"
    by (simp add: convert_markup_eval)
qed

theorem convert_markup_examples_witness:
  "\<exists>r. convert_markup (str ''h1. *a* [b|c] {{d}} !e.png|thumb!'') = Inr r"
  using convert_markup_examples [of "str ''h1. *a* [b|c] {{d}} !e.png|thumb!''"] by (elim conjE)

section \<open>Properties of sync_statuses\<close>

lemma length_colors: "length colors = 7"
  by (simp add: colors_def)

lemma delete_statuses_calls:
  "filter is_call (delete_statuses E ss tr) =
     filter is_call tr @ map (\<lambda>s. DeleteStatus (status_id s)) ss"
  by (induction ss arbitrary: tr) (simp_all split: option.split)

lemma delete_statuses_creations:
  "filter is_creation (delete_statuses E ss tr) = filter is_creation tr"
  by (induction ss arbitrary: tr) (simp_all split: option.split)

text \<open>The requests of the loop when it starts at position \<open>i\<close> of the enumeration.\<close>

lemma missing_Nil: "missing p [] = []"
  by (simp add: missing_def)

lemma missing_Cons:
  "missing p (name # names) =
     (if find (\<lambda>s. status_slug s = slugify name) (us_statuses p) = None then [0] else []) @
     map Suc (missing p names)"
proof -
  have "[0..<length (name # names)] = 0 # map Suc [0..<length names]"
    by (simp add: upt_conv_Cons map_Suc_upt del: upt_Suc)
  then show ?thesis
    by (simp add: missing_def filter_map comp_def del: upt_Suc)
qed

lemma create_statuses_filter:
  assumes "\<And>l. \<not> P (Log l)" and "\<And>n s c k. P (AddUserStoryStatus n s c k)"
  shows "filter P (fst (create_statuses E p i names (tr, sm))) =
     filter P tr @
     map (\<lambda>j. AddUserStoryStatus (names ! j) (slugify (names ! j)) (is_closed (names ! j))
                (colors ! ((i + j) mod 7)))
       (missing p names)"
proof (induction names arbitrary: i tr sm)
  case Nil
  show ?case by (simp add: missing_Nil)
next
  case (Cons name names)
  let ?call = "AddUserStoryStatus name (slugify name) (is_closed name) (colors ! (i mod 7))"
  show ?case
  proof (cases "find (\<lambda>s. status_slug s = slugify name) (us_statuses p)")
    case (Some found)
    then have step: "create_statuses E p i (name # names) (tr, sm) =
        create_statuses E p (Suc i) names (tr, sm(slugify name \<mapsto> status_id found))"
      by (simp add: Let_def)
    from Some have m: "missing p (name # names) = map Suc (missing p names)"
      by (simp add: missing_Cons)
    show ?thesis unfolding step m Cons.IH by (simp add: comp_def)
  next
    case None
    note absent = this
    then have m: "missing p (name # names) = 0 # map Suc (missing p names)"
      by (simp add: missing_Cons)
    show ?thesis
    proof (cases "respond E tr ?call")
      case None
      with absent have step: "create_statuses E p i (name # names) (tr, sm) =
          create_statuses E p (Suc i) names (tr @ [?call, Log (StatusNotCreated name)], sm)"
        by (simp add: Let_def length_colors)
      show ?thesis unfolding step m Cons.IH using assms by (simp add: comp_def)
    next
      case (Some new_id)
      with absent have step: "create_statuses E p i (name # names) (tr, sm) =
          create_statuses E p (Suc i) names
            (tr @ [?call, Log (StatusCreated name)], sm(slugify name \<mapsto> new_id))"
        by (simp add: Let_def length_colors)
      show ?thesis unfolding step m Cons.IH using assms by (simp add: comp_def)
    qed
  qed
qed

lemma create_statuses_creations:
  "filter is_creation (fst (create_statuses E p 0 names (tr, sm))) =
     filter is_creation tr @ map (creation_of names) (missing p names)"
  using create_statuses_filter [of is_creation E p 0 names tr sm]
  by (simp add: creation_of_def [abs_def])

lemma create_statuses_calls:
  "filter is_call (fst (create_statuses E p 0 names (tr, sm))) =
     filter is_call tr @ map (creation_of names) (missing p names)"
  using create_statuses_filter [of is_call E p 0 names tr sm]
  by (simp add: creation_of_def [abs_def])

lemma create_statuses_reuse:
  assumes "find (\<lambda>s. status_slug s = k) (us_statuses p) = Some found"
    and "sm k = Some (status_id found) \<or> k \<in> slugify ` set names"
  shows "snd (create_statuses E p i names (tr, sm)) k = Some (status_id found)"
  using assms(2)
proof (induction names arbitrary: i tr sm)
  case Nil
  then show ?case by simp
next
  case (Cons name names)
  let ?call = "AddUserStoryStatus name (slugify name) (is_closed name) (colors ! (i mod 7))"
  show ?case
  proof (cases "find (\<lambda>s. status_slug s = slugify name) (us_statuses p)")
    case (Some f)
    then have step: "create_statuses E p i (name # names) (tr, sm) =
        create_statuses E p (Suc i) names (tr, sm(slugify name \<mapsto> status_id f))"
      by (simp add: Let_def)
    have "(sm(slugify name \<mapsto> status_id f)) k = Some (status_id found) \<or> k \<in> slugify ` set names"
      using Cons.prems Some assms(1) by auto
    then show ?thesis unfolding step by (rule Cons.IH)
  next
    case None
    with assms(1) have ne: "k \<noteq> slugify name" by auto
    with Cons.prems have pre: "sm k = Some (status_id found) \<or> k \<in> slugify ` set names"
      by auto
    show ?thesis
    proof (cases "respond E tr ?call")
      case None
      with \<open>find (\<lambda>s. status_slug s = slugify name) (us_statuses p) = None\<close>
      have step: "create_statuses E p i (name # names) (tr, sm) =
          create_statuses E p (Suc i) names (tr @ [?call, Log (StatusNotCreated name)], sm)"
        by (simp add: Let_def length_colors)
      show ?thesis unfolding step using pre by (rule Cons.IH)
    next
      case (Some new_id)
      with \<open>find (\<lambda>s. status_slug s = slugify name) (us_statuses p) = None\<close>
      have step: "create_statuses E p i (name # names) (tr, sm) =
          create_statuses E p (Suc i) names
            (tr @ [?call, Log (StatusCreated name)], sm(slugify name \<mapsto> new_id))"
        by (simp add: Let_def length_colors)
      have "(sm(slugify name \<mapsto> new_id)) k = Some (status_id found) \<or> k \<in> slugify ` set names"
        using pre ne by simp
      then show ?thesis unfolding step by (rule Cons.IH)
    qed
  qed
qed

lemmas sync_eval = sync_statuses_def accepting_def colors_def is_closed_def slugify_def str_def
  lower_def lower_char_def re_sub_def non_slug_run_def is_slug_char_def strip_def Let_def

text \<open>
  Claim C4, as the code has it. The creations \<open>sync_statuses\<close> requests are, in order,
  those for the positions \<open>i\<close> of the source names whose slug is not among the
  statuses of the project, and the status created for position \<open>i\<close> gets the
  palette entry \<open>i mod 7\<close>: the position counts every source name, reused or not.
\<close>

theorem status_color_by_position:
  assumes "project self = Some p"
  shows "\<exists>tr' sm. sync_statuses E self names reset False tr = Inr (tr', sm) \<and>
     filter is_creation tr' =
       filter is_creation tr @
       map (\<lambda>i. AddUserStoryStatus (names ! i) (slugify (names ! i)) (is_closed (names ! i))
                  (colors ! (i mod 7)))
         (missing p names)"
proof -
  let ?tr0 = "if reset then delete_statuses E (us_statuses p) tr else tr"
  obtain tr' sm where r: "create_statuses E p 0 names (?tr0, Map.empty) = (tr', sm)"
    by (cases "create_statuses E p 0 names (?tr0, Map.empty)")
  with assms have "sync_statuses E self names reset False tr = Inr (tr', sm)"
    by (simp add: sync_statuses_def)
  moreover have "filter is_creation tr' =
      filter is_creation ?tr0 @ map (creation_of names) (missing p names)"
    using create_statuses_creations [of E p names ?tr0 Map.empty] r by simp
  moreover have "filter is_creation ?tr0 = filter is_creation tr"
    by (simp add: delete_statuses_creations)
  ultimately show ?thesis by (simp add: creation_of_def [abs_def])
qed

theorem status_color_by_position_witness:
  "\<exists>tr' sm.
     sync_statuses accepting
       \<lparr>project = Some \<lparr>us_statuses = [\<lparr>status_name = str ''A'', status_slug = str ''a'',
                                          status_id = 5\<rparr>], roles = [], points = []\<rparr>,
        users_cache = [], manual_user_map = []\<rparr>
       [str ''A'', str ''B''] False False [] = Inr (tr', sm) \<and>
     filter is_creation tr' =
       [AddUserStoryStatus (str ''B'') (str ''b'') False (str ''#E47C40'')]"
proof -
  let ?p = "\<lparr>us_statuses = [\<lparr>status_name = str ''A'', status_slug = str ''a'', status_id = 5\<rparr>],
             roles = [], points = []\<rparr>"
  let ?self = "\<lparr>project = Some ?p, users_cache = [], manual_user_map = []\<rparr>"
  have p: "project ?self = Some ?p" by simp
  have m: "missing ?p [str ''A'', str ''B''] = [1]"
    by (simp add: missing_def sync_eval upt_rec)
  have c: "AddUserStoryStatus ([str ''A'', str ''B''] ! 1) (slugify ([str ''A'', str ''B''] ! 1))
             (is_closed ([str ''A'', str ''B''] ! 1)) (colors ! (1 mod 7)) =
           AddUserStoryStatus (str ''B'') (str ''b'') False (str ''#E47C40'')"
    by (simp add: sync_eval)
  from status_color_by_position [OF p, of accepting "[str ''A'', str ''B'']" False "[]"]
  show ?thesis unfolding m using c by simp
qed

text \<open>
  Against claim C4 as stated: with the source names \<open>A\<close>, \<open>B\<close> and a project that
  has a status of slug \<open>a\<close>, the first status created (the creation number 0) is
  \<open>B\<close>, and its colour is the palette entry 1, not the entry \<open>0 mod 7\<close>.
\<close>

theorem status_color_counterexample:
  "map_sum id fst
     (sync_statuses accepting
        \<lparr>project = Some \<lparr>us_statuses = [\<lparr>status_name = str ''A'', status_slug = str ''a'',
                                           status_id = 5\<rparr>], roles = [], points = []\<rparr>,
         users_cache = [], manual_user_map = []\<rparr>
        [str ''A'', str ''B''] False False []) =
     Inr [AddUserStoryStatus (str ''B'') (str ''b'') False (colors ! 1),
          Log (StatusCreated (str ''B''))] \<and>
   colors ! 1 \<noteq> colors ! (0 mod 7)"
  by (simp add: sync_eval)

text \<open>
  Claim C6 at the input where the code departs from it: the project has no status
  and the source names \<open>To Do\<close> and \<open>to do\<close> share the slug \<open>to-do\<close>. The second name
  is looked up in the statuses the project was fetched with, which do not hold the
  status just created, so a second creation with the same slug is requested.
\<close>

theorem same_slug_created_twice:
  "map_sum id fst
     (sync_statuses accepting
        \<lparr>project = Some \<lparr>us_statuses = [], roles = [], points = []\<rparr>,
         users_cache = [], manual_user_map = []\<rparr>
        [str ''To Do'', str ''to do''] False False []) =
     Inr [AddUserStoryStatus (str ''To Do'') (str ''to-do'') False (str ''#70728F''),
          Log (StatusCreated (str ''To Do'')),
          AddUserStoryStatus (str ''to do'') (str ''to-do'') False (str ''#E47C40''),
          Log (StatusCreated (str ''to do''))]"
  by (simp add: sync_eval)

text \<open>
  Claim C7. With \<open>reset\<close> set and dry-run off, \<open>sync_statuses\<close> returns, whatever the
  server answers to the deletions: its calls are a deletion for every status of
  the project, in order, and after them the creations for the source names whose
  slug the project does not have; and every source name whose slug the project has
  is mapped to the identifier of that status.
\<close>

theorem reset_deletes_before_creating:
  assumes "project self = Some p"
  shows "\<exists>tr' sm. sync_statuses E self names True False tr = Inr (tr', sm) \<and>
     filter is_call tr' =
       filter is_call tr @ map (\<lambda>s. DeleteStatus (status_id s)) (us_statuses p) @
       map (creation_of names) (missing p names) \<and>
     (\<forall>name\<in>set names. \<forall>found.
        find (\<lambda>s. status_slug s = slugify name) (us_statuses p) = Some found \<longrightarrow>
        sm (slugify name) = Some (status_id found))"
proof -
  let ?tr0 = "delete_statuses E (us_statuses p) tr"
  obtain tr' sm where r: "create_statuses E p 0 names (?tr0, Map.empty) = (tr', sm)"
    by (cases "create_statuses E p 0 names (?tr0, Map.empty)")
  with assms have "sync_statuses E self names True False tr = Inr (tr', sm)"
    by (simp add: sync_statuses_def)
  moreover have "filter is_call tr' =
      filter is_call tr @ map (\<lambda>s. DeleteStatus (status_id s)) (us_statuses p) @
      map (creation_of names) (missing p names)"
    using create_statuses_calls [of E p names ?tr0 Map.empty] r
    by (simp add: delete_statuses_calls)
  moreover have "sm (slugify name) = Some (status_id found)"
    if "name \<in> set names"
      and "find (\<lambda>s. status_slug s = slugify name) (us_statuses p) = Some found"
    for name found
    using create_statuses_reuse [of "slugify name" p found Map.empty names E 0 ?tr0] that r
    by simp
  ultimately show ?thesis by blast
qed

theorem reset_deletes_before_creating_witness:
  "\<exists>tr' sm.
     sync_statuses
       \<lparr>respond = (\<lambda>tr e. if e = DeleteStatus 5 then None else Some 9),
        fetch = (\<lambda>tr url. Fetched), render = (\<lambda>s. s), str_lower = lower\<rparr>
       \<lparr>project = Some \<lparr>us_statuses = [\<lparr>status_name = str ''Old'', status_slug = str ''old'',
                                          status_id = 5\<rparr>], roles = [], points = []\<rparr>,
        users_cache = [], manual_user_map = []\<rparr>
       [str ''Done''] True False [] = Inr (tr', sm) \<and>
     filter is_call tr' =
       [DeleteStatus 5, AddUserStoryStatus (str ''Done'') (str ''done'') True (str ''#70728F'')]"
proof -
  let ?p = "\<lparr>us_statuses = [\<lparr>status_name = str ''Old'', status_slug = str ''old'', status_id = 5\<rparr>],
             roles = [], points = []\<rparr>"
  let ?self = "\<lparr>project = Some ?p, users_cache = [], manual_user_map = []\<rparr>"
  let ?E = "\<lparr>respond = (\<lambda>tr e. if e = DeleteStatus 5 then None else Some 9),
             fetch = (\<lambda>tr url. Fetched), render = (\<lambda>s. s), str_lower = lower\<rparr>"
  have p: "project ?self = Some ?p" by simp
  have m: "missing ?p [str ''Done''] = [0]"
    by (simp add: missing_def sync_eval)
  have c: "creation_of [str ''Done''] 0 =
           AddUserStoryStatus (str ''Done'') (str ''done'') True (str ''#70728F'')"
    by (simp add: creation_of_def sync_eval)
  from reset_deletes_before_creating [OF p, of ?E "[str ''Done'']" "[]"]
  show ?thesis unfolding m using c by auto
qed

section \<open>Properties of the assignee lookup\<close>

lemma truthy_cache_lookup:
  assumes "\<forall>item\<in>set cache. snd item \<noteq> (0::int)"
  shows "falsy_id (map_of cache k) = (map_of cache k = None)"
proof (cases "map_of cache k")
  case None
  then show ?thesis by (simp add: falsy_id_def)
next
  case (Some v)
  then have "(k, v) \<in> set cache" by (rule map_of_SomeD)
  with assms have "v \<noteq> 0" by fastforce
  with Some show ?thesis by (simp add: falsy_id_def)
qed

lemmas resolve_eval = resolve_assignee_def falsy_id_def falsy_str_def fuzzy_def accepting_def
  str_def lower_def lower_char_def Let_def

text \<open>
  Claim C5, as the code has it. For a display name that is not empty and a cache
  whose identifiers are not zero: an exact hit in the cache gives its identifier;
  otherwise a manual mapping to a name that is not empty and is in the cache gives
  the identifier of the mapped name; otherwise the first cache entry, in the
  order of the cache, whose lower-cased key holds the lower-cased name or is held
  by it, gives its identifier; otherwise the result is absent. A missing display
  name gives absent and an empty one only the exact lookup: the two later tiers
  are guarded by the name. The lower-casing is that of the environment, so the
  statement holds for \<open>str.lower\<close> on every name.
\<close>

theorem resolve_assignee_tiers:
  assumes "\<forall>item\<in>set (users_cache self). snd item \<noteq> 0" and "name \<noteq> []"
  shows "resolve_assignee E self (Some name) =
     (case map_of (users_cache self) name of
        Some uid \<Rightarrow> Some uid
      | None \<Rightarrow>
          (case (case map_of (manual_user_map self) name of
                   None \<Rightarrow> None
                 | Some mapped_name \<Rightarrow>
                     if mapped_name = [] then None else map_of (users_cache self) mapped_name) of
             Some uid \<Rightarrow> Some uid
           | None \<Rightarrow>
               map_option snd
                 (find (\<lambda>item. contains (str_lower E (fst item)) (str_lower E name) \<or>
                               contains (str_lower E name) (str_lower E (fst item)))
                    (users_cache self)))) \<and>
     resolve_assignee E self None = None \<and>
     resolve_assignee E self (Some []) = map_of (users_cache self) []"
proof (intro conjI)
  note t = truthy_cache_lookup [OF assms(1)]
  have fz: "(\<lambda>item. contains (str_lower E (fst item)) (str_lower E name) \<or>
               contains (str_lower E name) (str_lower E (fst item))) =
      fuzzy (str_lower E) name"
    by (rule ext) (simp add: fuzzy_def)
  have tiers: "resolve_assignee E self (Some name) =
     (case map_of (users_cache self) name of
        Some uid \<Rightarrow> Some uid
      | None \<Rightarrow>
          (case (case map_of (manual_user_map self) name of
                   None \<Rightarrow> None
                 | Some mapped_name \<Rightarrow>
                     if mapped_name = [] then None else map_of (users_cache self) mapped_name) of
             Some uid \<Rightarrow> Some uid
           | None \<Rightarrow> map_option snd (find (fuzzy (str_lower E) name) (users_cache self))))"
  proof (cases "map_of (users_cache self) name")
    case (Some uid)
    with t [of name] show ?thesis by (simp add: resolve_assignee_def)
  next
    case None
    note miss = this
    show ?thesis
    proof (cases "map_of (manual_user_map self) name")
      case None
      with miss assms(2) show ?thesis
        by (simp add: resolve_assignee_def falsy_id_def falsy_str_def split: option.split)
    next
      case (Some mapped_name)
      show ?thesis
      proof (cases "mapped_name = []")
        case True
        with miss Some assms(2) show ?thesis
          by (simp add: resolve_assignee_def falsy_id_def falsy_str_def split: option.split)
      next
        case False
        with miss Some assms(2) t [of mapped_name] show ?thesis
          by (cases "map_of (users_cache self) mapped_name")
            (simp_all add: resolve_assignee_def falsy_id_def falsy_str_def split: option.split)
      qed
    qed
  qed
  show "resolve_assignee E self (Some name) =
     (case map_of (users_cache self) name of
        Some uid \<Rightarrow> Some uid
      | None \<Rightarrow>
          (case (case map_of (manual_user_map self) name of
                   None \<Rightarrow> None
                 | Some mapped_name \<Rightarrow>
                     if mapped_name = [] then None else map_of (users_cache self) mapped_name) of
             Some uid \<Rightarrow> Some uid
           | None \<Rightarrow>
               map_option snd
                 (find (\<lambda>item. contains (str_lower E (fst item)) (str_lower E name) \<or>
                               contains (str_lower E name) (str_lower E (fst item)))
                    (users_cache self))))"
    unfolding fz by (rule tiers)
  show "resolve_assignee E self None = None" by (simp add: resolve_assignee_def)
  show "resolve_assignee E self (Some []) = map_of (users_cache self) []"
    by (simp add: resolve_assignee_def)
qed

theorem resolve_assignee_tiers_witness:
  "resolve_assignee accepting
     \<lparr>project = None,
      users_cache = [(str ''Al'', 3), (str ''Alice Smith'', 7), (str ''bob'', 9)],
      manual_user_map = [(str ''Robert'', str ''bob'')]\<rparr>
     (Some (str ''Alice Smith'')) = Some 7 \<and>
   resolve_assignee accepting
     \<lparr>project = None,
      users_cache = [(str ''Al'', 3), (str ''Alice Smith'', 7), (str ''bob'', 9)],
      manual_user_map = [(str ''Robert'', str ''bob'')]\<rparr>
     (Some (str ''Robert'')) = Some 9 \<and>
   resolve_assignee accepting
     \<lparr>project = None,
      users_cache = [(str ''Al'', 3), (str ''Alice Smith'', 7), (str ''bob'', 9)],
      manual_user_map = [(str ''Robert'', str ''bob'')]\<rparr>
     (Some (str ''BOBBY'')) = Some 9"
proof -
  let ?self = "\<lparr>project = None,
      users_cache = [(str ''Al'', 3), (str ''Alice Smith'', 7), (str ''bob'', 9)],
      manual_user_map = [(str ''Robert'', str ''bob'')]\<rparr>"
  have c: "\<forall>item\<in>set (users_cache ?self). snd item \<noteq> 0" by simp
  have a: "str ''Alice Smith'' \<noteq> []" and r: "str ''Robert'' \<noteq> []" and b: "str ''BOBBY'' \<noteq> []"
    by (simp_all add: str_def)
  from resolve_assignee_tiers [OF c a, of accepting]
  have "resolve_assignee accepting ?self (Some (str ''Alice Smith'')) = Some 7"
    by (simp add: str_def)
  moreover from resolve_assignee_tiers [OF c r, of accepting]
  have "resolve_assignee accepting ?self (Some (str ''Robert'')) = Some 9"
    by (simp add: str_def)
  moreover from resolve_assignee_tiers [OF c b, of accepting]
  have "resolve_assignee accepting ?self (Some (str ''BOBBY'')) = Some 9"
    by (simp add: accepting_def str_def lower_def lower_char_def)
  ultimately show ?thesis by simp
qed

text \<open>
  Against claim C5 as stated: for the empty display name the cache key \<open>alice\<close>
  meets the test of the third tier (the empty string is part of every string),
  yet the result is absent, because the program runs the second and third tier
  for a display name that is not empty only.
\<close>

theorem resolve_assignee_counterexample:
  "fuzzy lower (str '''') (str ''alice'', 7) \<and>
   resolve_assignee accepting
     \<lparr>project = None, users_cache = [(str ''alice'', 7)], manual_user_map = []\<rparr>
     (Some (str '''')) = None"
  by (simp add: resolve_eval)

section \<open>Properties of the row loop\<close>

lemma length_split_max: "length (split_max sep n s) \<le> Suc n"
  by (induction n arbitrary: s) (auto split: list.split)

lemma parse_comment_returns: "\<exists>t. parse_comment v = Inr t"
proof (cases "v = [] \<or> length (split_max 59 2 v) < 3")
  case True
  then show ?thesis
    using convert_markup_returns [of v] by (auto simp: parse_comment_def Let_def)
next
  case False
  moreover have "length (split_max 59 2 v) \<le> 3"
    using length_split_max [of 59 2 v] by simp
  ultimately have "length (split_max 59 2 v) = 3" by simp
  then obtain a b c where "split_max 59 2 v = [a, b, c]"
    by (auto simp: length_Suc_conv numeral_3_eq_3)
  with False show ?thesis
    using convert_markup_returns [of c] by (auto simp: parse_comment_def Let_def)
qed

lemma parse_comment_parsed: "parse_comment v = Inr (parsed_comment v)"
  using parse_comment_returns [of v] by (auto simp: parsed_comment_def)

lemma row_comments_eq:
  "row_comments r =
     Inr (filter (\<lambda>t. t \<noteq> []) (map (\<lambda>item. parsed_comment (snd item)) (filter is_comment_field r)))"
  by (induction r) (simp_all add: parse_comment_parsed)

lemma row_fields_returns: "\<exists>x. row_fields E taiga_statuses r = Inr x"
proof -
  obtain d where "convert_markup (case map_of r (str ''Description'') of None \<Rightarrow> [] | Some d \<Rightarrow> d) = Inr d"
    using convert_markup_returns by blast
  then show ?thesis by (simp add: row_fields_def Let_def row_comments_eq)
qed

lemma row_fields_comments:
  assumes "row_fields E taiga_statuses r =
     Inr (summary, description, status_ident, assignee, points_val, comments)"
  shows "comments =
     filter (\<lambda>t. t \<noteq> []) (map (\<lambda>item. parsed_comment (snd item)) (filter is_comment_field r))"
  using assms by (auto simp: row_fields_def Let_def row_comments_eq split: sum.splits)

text \<open>
  Claim C8. With the dry-run flag set, processing a row returns with the counters
  as they were and the local files as they were, and all it adds to the trace are
  outputs (the progress line and the log line of the row): no call to the Taiga
  project, so no creation of a record, no download and no file operation.
\<close>

theorem dry_run_row_only_logs:
  assumes "DRY_RUN cfg"
  shows "\<exists>evs. process_row E cfg jira taiga taiga_statuses total_rows i r (w, st) =
                 Inr (w\<lparr>trace := trace w @ evs\<rparr>, st) \<and>
               (\<forall>e\<in>set evs. is_output e)"
proof -
  obtain summary description status_ident assignee points_val comments
    where f: "row_fields E taiga_statuses r =
                Inr (summary, description, status_ident, assignee, points_val, comments)"
    using row_fields_returns [of E taiga_statuses r] by (metis prod_cases6)
  let ?line = "Log (DryRunRow (take 40 summary) (map_of r (str ''Status'')) assignee
                     (length (attachment_cols r)) (length comments))"
  show ?thesis
  proof (cases "i mod 5 = 0")
    case True
    with assms f have "process_row E cfg jira taiga taiga_statuses total_rows i r (w, st) =
        Inr (w\<lparr>trace := trace w @ [Print i total_rows, ?line]\<rparr>, st)"
      by (simp add: process_row_def progress_def)
    then show ?thesis by (intro exI [of _ "[Print i total_rows, ?line]"]) simp
  next
    case False
    with assms f have "process_row E cfg jira taiga taiga_statuses total_rows i r (w, st) =
        Inr (w\<lparr>trace := trace w @ [?line]\<rparr>, st)"
      by (simp add: process_row_def progress_def)
    then show ?thesis by (intro exI [of _ "[?line]"]) simp
  qed
qed

theorem dry_run_row_only_logs_witness:
  "\<exists>evs. process_row accepting \<lparr>DRY_RUN = True, DOWNLOAD_ATTACHMENTS = True\<rparr>
            \<lparr>username = Some (str ''u''), api_token = Some (str ''t'')\<rparr>
            \<lparr>project = Some \<lparr>us_statuses = [], roles = [], points = []\<rparr>, users_cache = [],
              manual_user_map = []\<rparr>
            Map.empty 1 1
            [(str ''Summary'', str ''S''), (str ''Attachment'', str ''d;a;f.png;http://u'')]
            (\<lparr>trace = [], files = {}\<rparr>, \<lparr>success = 0, failed = 0\<rparr>) =
          Inr (\<lparr>trace = evs, files = {}\<rparr>, \<lparr>success = 0, failed = 0\<rparr>) \<and>
          (\<forall>e\<in>set evs. is_output e)"
  using dry_run_row_only_logs
    [of "\<lparr>DRY_RUN = True, DOWNLOAD_ATTACHMENTS = True\<rparr>" accepting
        "\<lparr>username = Some (str ''u''), api_token = Some (str ''t'')\<rparr>"
        "\<lparr>project = Some \<lparr>us_statuses = [], roles = [], points = []\<rparr>, users_cache = [],
          manual_user_map = []\<rparr>"
        Map.empty 1 1
        "[(str ''Summary'', str ''S''), (str ''Attachment'', str ''d;a;f.png;http://u'')]"
        "\<lparr>trace = [], files = {}\<rparr>" "\<lparr>success = 0, failed = 0\<rparr>"]
  by simp

lemma split_descriptor:
  "split 59 (str ''d;a;f.png;http://u'') = [str ''d'', str ''a'', str ''f.png'', str ''http://u'']"
  by (simp add: split_def str_def)

lemma convert_markup_Nil: "convert_markup [] = Inr []"
  by (simp add: convert_markup_def)

lemma attachment_row_comments: "row_comments attachment_row = Inr []"
  by (simp add: attachment_row_def is_comment_field_def str_def)

lemma attachment_row_fields:
  "row_fields E Map.empty attachment_row = Inr (str ''S'', render E [], None, None, None, [])"
proof -
  have m: "map_of attachment_row k =
     (if k = str ''Summary'' then Some (str ''S'')
      else if k = str ''Attachment'' then Some (str ''d;a;f.png;http://u'') else None)" for k
    by (simp add: attachment_row_def)
  have n: "str ''Status'' \<noteq> str ''Summary''" "str ''Status'' \<noteq> str ''Attachment''"
     "str ''Assignee'' \<noteq> str ''Summary''" "str ''Assignee'' \<noteq> str ''Attachment''"
     "str ''Description'' \<noteq> str ''Summary''" "str ''Description'' \<noteq> str ''Attachment''"
     "str ''Custom field (Story point estimate)'' \<noteq> str ''Summary''"
     "str ''Custom field (Story point estimate)'' \<noteq> str ''Attachment''"
    by (simp_all add: str_def)
  show ?thesis
    unfolding row_fields_def m attachment_row_comments
    by (simp add: n convert_markup_Nil falsy_str_def)
qed

lemma attachment_row_cols: "attachment_cols attachment_row = [str ''d;a;f.png;http://u'']"
  by (simp add: attachment_cols_def attachment_row_def str_def)

lemma create_story_accepted:
  "create_story upload_refused taiga_connected title d None None None [] False tr =
     (Inr (Some 1), tr @ [AddUserStory title d None None])"
  by (simp add: create_story_def upload_refused_def taiga_connected_def resolve_assignee_def
      update_points_def falsy_str_def)

lemma download_fetched:
  "download_attachment upload_refused jira_with_credentials (str ''http://u'') (str ''f.png'') w =
     (Some (str ''attachments/f.png''),
      w\<lparr>trace := trace w @ [Download (str ''http://u'') (str ''f.png''), Log (Downloaded (str ''f.png''))],
        files := insert (str ''attachments/f.png'') (files w)\<rparr>)"
proof -
  have s: "strip is_space (replace [8239] [32] (str ''f.png'')) = str ''f.png''"
    by (simp add: strip_def replace_def re_sub_def literal_def is_space_def str_def)
  have c: "\<not> falsy_str (username jira_with_credentials)" "\<not> falsy_str (api_token jira_with_credentials)"
    by (simp_all add: jira_with_credentials_def falsy_str_def str_def)
  have a: "str ''attachments/'' @ str ''f.png'' = str ''attachments/f.png''" by (simp add: str_def)
  show ?thesis
    unfolding download_attachment_def s Let_def a using c
    by (simp add: upload_refused_def)
qed

lemma attach_refused:
  "attach_file upload_refused (Some 1) f tr = (Inl RemoteError, tr @ [Attach 1 f])"
  by (simp add: attach_file_def upload_refused_def)

lemma handle_attachments_refused:
  "handle_attachments upload_refused jira_with_credentials (Some 1) [str ''d;a;f.png;http://u''] w =
     (Inl RemoteError,
      w\<lparr>trace := trace w @ [Download (str ''http://u'') (str ''f.png''), Log (Downloaded (str ''f.png'')),
                           Attach 1 (str ''attachments/f.png'')],
        files := insert (str ''attachments/f.png'') (files w)\<rparr>)"
proof -
  have l: "last [str ''d'', str ''a'', str ''f.png'', str ''http://u''] = str ''http://u''"
    "[str ''d'', str ''a'', str ''f.png'', str ''http://u''] ! 2 = str ''f.png''"
    by simp_all
  show ?thesis
    by (simp add: split_descriptor l download_fetched attach_refused del: last.simps)
qed

lemma add_comments_trace:
  "\<exists>n. snd (add_comments E story cs tr) = tr @ map (AddComment story) (take n cs)"
proof (induction cs arbitrary: tr)
  case Nil
  show ?case by simp
next
  case (Cons c cs)
  show ?case
  proof (cases "respond E tr (AddComment story c)")
    case None
    then have "snd (add_comments E story (c # cs) tr) =
        tr @ map (AddComment story) (take 1 (c # cs))" by simp
    then show ?thesis by blast
  next
    case (Some r)
    from Cons [of "tr @ [AddComment story c]"] obtain n where
      "snd (add_comments E story cs (tr @ [AddComment story c])) =
         (tr @ [AddComment story c]) @ map (AddComment story) (take n cs)" by blast
    with Some have "snd (add_comments E story (c # cs) tr) =
        tr @ map (AddComment story) (take (Suc n) (c # cs))" by simp
    then show ?thesis by blast
  qed
qed

lemma update_points_filter:
  assumes "\<And>s r p. \<not> P (UpdatePoints s r p)"
  shows "filter P (snd (update_points E p story points_value tr)) = filter P tr"
  using assms by (simp add: update_points_def split: option.split)

lemma create_story_story_calls:
  assumes "project self = Some p"
  shows "filter is_story_call (snd (create_story E self title d s a pv comments False tr)) =
     filter is_story_call tr @ [AddUserStory title d s (resolve_assignee E self a)]"
proof -
  let ?call = "AddUserStory title d s (resolve_assignee E self a)"
  show ?thesis
  proof (cases "respond E tr ?call")
    case None
    with assms show ?thesis by (simp add: create_story_def)
  next
    case (Some story)
    obtain r1 tr1 where u: "update_points E p story pv (tr @ [?call]) = (r1, tr1)"
      by (cases "update_points E p story pv (tr @ [?call])")
    have f1: "filter is_story_call tr1 = filter is_story_call tr @ [?call]"
      using update_points_filter [of is_story_call E p story pv "tr @ [?call]"] u by simp
    obtain r2 tr2 where c: "add_comments E story comments tr1 = (r2, tr2)"
      by (cases "add_comments E story comments tr1")
    obtain n where "tr2 = tr1 @ map (AddComment story) (take n comments)"
      using add_comments_trace [of E story comments tr1] c by auto
    then have f2: "filter is_story_call tr2 = filter is_story_call tr1"
      by (simp add: filter_map comp_def)
    from assms Some u c f1 f2 show ?thesis
      by (cases r1; cases r2) (simp_all add: create_story_def)
  qed
qed

lemma create_story_comments:
  "\<exists>n story. filter is_add_comment (snd (create_story E self title d s a pv comments False tr)) =
     filter is_add_comment tr @ map (AddComment story) (take n comments)"
proof (cases "project self")
  case None
  then have "filter is_add_comment (snd (create_story E self title d s a pv comments False tr)) =
      filter is_add_comment tr @ map (AddComment 0) (take 0 comments)"
    by (simp add: create_story_def)
  then show ?thesis by blast
next
  case (Some p)
  let ?call = "AddUserStory title d s (resolve_assignee E self a)"
  show ?thesis
  proof (cases "respond E tr ?call")
    case None
    with Some have "filter is_add_comment (snd (create_story E self title d s a pv comments False tr)) =
        filter is_add_comment tr @ map (AddComment 0) (take 0 comments)"
      by (simp add: create_story_def)
    then show ?thesis by blast
  next
    case (Some story)
    note st = this
    obtain r1 tr1 where u: "update_points E p story pv (tr @ [?call]) = (r1, tr1)"
      by (cases "update_points E p story pv (tr @ [?call])")
    have f1: "filter is_add_comment tr1 = filter is_add_comment tr"
      using update_points_filter [of is_add_comment E p story pv "tr @ [?call]"] u by simp
    show ?thesis
    proof (cases r1)
      case (Inl e)
      with \<open>project self = Some p\<close> st u f1
      have "filter is_add_comment (snd (create_story E self title d s a pv comments False tr)) =
          filter is_add_comment tr @ map (AddComment story) (take 0 comments)"
        by (simp add: create_story_def)
      then show ?thesis by blast
    next
      case (Inr x)
      obtain r2 tr2 where c: "add_comments E story comments tr1 = (r2, tr2)"
        by (cases "add_comments E story comments tr1")
      obtain n where "tr2 = tr1 @ map (AddComment story) (take n comments)"
        using add_comments_trace [of E story comments tr1] c by auto
      then have f2: "filter is_add_comment tr2 =
          filter is_add_comment tr @ map (AddComment story) (take n comments)"
        using f1 by (simp add: filter_map comp_def)
      from \<open>project self = Some p\<close> st u c f2 Inr
      have "filter is_add_comment (snd (create_story E self title d s a pv comments False tr)) =
          filter is_add_comment tr @ map (AddComment story) (take n comments)"
        by (cases r2) (simp_all add: create_story_def)
      then show ?thesis by blast
    qed
  qed
qed

lemma download_attachment_filter:
  assumes "\<And>u f. \<not> P (Download u f)" and "\<And>l. \<not> P (Log l)"
  shows "filter P (trace (snd (download_attachment E jira url filename w))) = filter P (trace w)"
  using assms by (simp add: download_attachment_def Let_def split: fetched.split)

lemma attach_file_filter:
  assumes "\<And>s f. \<not> P (Attach s f)"
  shows "filter P (snd (attach_file E story f tr)) = filter P tr"
  using assms by (simp add: attach_file_def split: option.split)

lemma unlink_filter:
  assumes "\<And>f. \<not> P (Unlink f)"
  shows "filter P (trace (snd (unlink f w))) = filter P (trace w)"
  using assms by (simp add: unlink_def)

lemma handle_attachments_filter:
  assumes "\<And>u f. \<not> P (Download u f)" and "\<And>l. \<not> P (Log l)"
    and "\<And>s f. \<not> P (Attach s f)" and "\<And>f. \<not> P (Unlink f)"
  shows "filter P (trace (snd (handle_attachments E jira story fs w))) = filter P (trace w)"
proof (induction fs arbitrary: w)
  case Nil
  show ?case by simp
next
  case (Cons field fs)
  let ?parts = "split 59 field"
  show ?case
  proof (cases "4 \<le> length ?parts")
    case False
    then show ?thesis using Cons [of w] by (simp add: Let_def)
  next
    case True
    obtain lf w1 where d: "download_attachment E jira (last ?parts) (?parts ! 2) w = (lf, w1)"
      by (cases "download_attachment E jira (last ?parts) (?parts ! 2) w")
    have f1: "filter P (trace w1) = filter P (trace w)"
      using download_attachment_filter [of P E jira "last ?parts" "?parts ! 2" w] assms d by simp
    show ?thesis
    proof (cases lf)
      case None
      with True d f1 Cons [of w1] show ?thesis by (simp add: Let_def)
    next
      case (Some local_file)
      obtain r2 tr2 where a: "attach_file E story local_file (trace w1) = (r2, tr2)"
        by (cases "attach_file E story local_file (trace w1)")
      have f2: "filter P tr2 = filter P (trace w)"
        using attach_file_filter [of P E story local_file "trace w1"] assms a f1 by simp
      show ?thesis
      proof (cases r2)
        case (Inl e)
        with True d Some a f2 show ?thesis by (simp add: Let_def)
      next
        case (Inr x)
        obtain r3 w3 where u: "unlink local_file (w1\<lparr>trace := tr2\<rparr>) = (r3, w3)"
          by (cases "unlink local_file (w1\<lparr>trace := tr2\<rparr>)")
        have f3: "filter P (trace w3) = filter P (trace w)"
          using unlink_filter [of P local_file "w1\<lparr>trace := tr2\<rparr>"] assms u f2 by simp
        from True d Some a Inr u f3 Cons [of w3] show ?thesis
          by (cases r3) (simp_all add: Let_def)
      qed
    qed
  qed
qed

lemma progress_filter:
  assumes "\<And>i n. \<not> P (Print i n)"
  shows "filter P (trace (progress total_rows i w)) = filter P (trace w)"
  using assms by (simp add: progress_def)

lemma try_body_filter:
  assumes "\<And>u f. \<not> P (Download u f)" and "\<And>l. \<not> P (Log l)"
    and "\<And>s f. \<not> P (Attach s f)" and "\<And>f. \<not> P (Unlink f)"
  shows "filter P (trace (snd (try_body E cfg jira taiga r summary d s a pv comments w))) =
     filter P (snd (create_story E taiga summary d s a pv comments False (trace w)))"
proof -
  obtain r1 tr1 where c: "create_story E taiga summary d s a pv comments False (trace w) = (r1, tr1)"
    by (cases "create_story E taiga summary d s a pv comments False (trace w)")
  show ?thesis
  proof (cases r1)
    case (Inl e)
    with c show ?thesis by (simp add: try_body_def)
  next
    case (Inr story)
    with c show ?thesis
      using handle_attachments_filter [of P E jira story "attachment_cols r" "w\<lparr>trace := tr1\<rparr>"] assms
      by (simp add: try_body_def)
  qed
qed

lemma process_row_live:
  assumes "\<not> DRY_RUN cfg"
  shows "\<exists>w1. process_row E cfg jira taiga taiga_statuses total_rows i r (w, st) =
            Inr (w1, if try_raises E cfg jira taiga taiga_statuses total_rows i r w
                     then st\<lparr>failed := failed st + 1\<rparr> else st\<lparr>success := success st + 1\<rparr>) \<and>
          (project taiga \<noteq> None \<longrightarrow>
             length (filter is_story_call (trace w1)) = Suc (length (filter is_story_call (trace w)))) \<and>
          (\<exists>k story. filter is_add_comment (trace w1) =
             filter is_add_comment (trace w) @
             map (AddComment story)
               (take k (filter (\<lambda>t. t \<noteq> [])
                  (map (\<lambda>item. parsed_comment (snd item)) (filter is_comment_field r)))))"
proof -
  obtain summary description status_ident assignee points_val comments
    where f: "row_fields E taiga_statuses r =
                Inr (summary, description, status_ident, assignee, points_val, comments)"
    using row_fields_returns [of E taiga_statuses r] by (metis prod_cases6)
  note cm = row_fields_comments [OF f]
  let ?w0 = "progress total_rows i w"
  let ?cs = "create_story E taiga summary description status_ident assignee points_val comments
               False (trace ?w0)"
  obtain r1 w1 where t: "try_body E cfg jira taiga r summary description status_ident assignee
      points_val comments ?w0 = (r1, w1)"
    by (cases "try_body E cfg jira taiga r summary description status_ident assignee
      points_val comments ?w0")
  have raises: "try_raises E cfg jira taiga taiga_statuses total_rows i r w = isl r1"
    using f t by (simp add: try_raises_def)
  have sc: "filter is_story_call (trace w1) = filter is_story_call (snd ?cs)"
    using try_body_filter [of is_story_call E cfg jira taiga r summary description status_ident
      assignee points_val comments ?w0] t by simp
  have ac: "filter is_add_comment (trace w1) = filter is_add_comment (snd ?cs)"
    using try_body_filter [of is_add_comment E cfg jira taiga r summary description status_ident
      assignee points_val comments ?w0] t by simp
  have p1: "filter is_story_call (trace ?w0) = filter is_story_call (trace w)"
    by (rule progress_filter) simp
  have p2: "filter is_add_comment (trace ?w0) = filter is_add_comment (trace w)"
    by (rule progress_filter) simp
  have story: "length (filter is_story_call (trace w1)) = Suc (length (filter is_story_call (trace w)))"
    if "project taiga \<noteq> None"
  proof -
    from that obtain p where "project taiga = Some p" by blast
    from create_story_story_calls [OF this, of E summary description status_ident assignee
        points_val comments "trace ?w0"] sc p1
    show ?thesis by simp
  qed
  obtain k s where com: "filter is_add_comment (trace w1) =
      filter is_add_comment (trace w) @ map (AddComment s) (take k comments)"
    using create_story_comments [of E taiga summary description status_ident assignee
        points_val comments "trace ?w0"] ac p2 by auto
  show ?thesis
  proof (cases r1)
    case (Inl e)
    with assms f t raises have "process_row E cfg jira taiga taiga_statuses total_rows i r (w, st) =
        Inr (w1, if try_raises E cfg jira taiga taiga_statuses total_rows i r w
                 then st\<lparr>failed := failed st + 1\<rparr> else st\<lparr>success := success st + 1\<rparr>)"
      by (simp add: process_row_def)
    with story com cm show ?thesis by blast
  next
    case (Inr u)
    let ?w2 = "w1\<lparr>trace := trace w1 @ [Log (StoryCreated summary)]\<rparr>"
    from Inr assms f t raises
    have "process_row E cfg jira taiga taiga_statuses total_rows i r (w, st) =
        Inr (?w2, if try_raises E cfg jira taiga taiga_statuses total_rows i r w
                  then st\<lparr>failed := failed st + 1\<rparr> else st\<lparr>success := success st + 1\<rparr>)"
      by (simp add: process_row_def)
    moreover have "project taiga \<noteq> None \<longrightarrow>
        length (filter is_story_call (trace ?w2)) = Suc (length (filter is_story_call (trace w)))"
      using story by simp
    moreover have "filter is_add_comment (trace ?w2) =
        filter is_add_comment (trace w) @ map (AddComment s) (take k comments)"
      using com by simp
    ultimately show ?thesis using cm by blast
  qed
qed

lemma process_rows_live:
  assumes "\<not> DRY_RUN cfg"
  shows "\<exists>w' st'. process_rows E cfg jira taiga taiga_statuses total_rows i rows (w, st) =
            Inr (w', st') \<and>
          failed st' =
            failed st + count_raises E cfg jira taiga taiga_statuses total_rows i rows (w, st) \<and>
          success st' + failed st' = success st + failed st + length rows \<and>
          (project taiga \<noteq> None \<longrightarrow>
             length (filter is_story_call (trace w')) =
               length (filter is_story_call (trace w)) + length rows)"
proof (induction rows arbitrary: i w st)
  case Nil
  show ?case by simp
next
  case (Cons r rows)
  let ?st1 = "if try_raises E cfg jira taiga taiga_statuses total_rows i r w
              then st\<lparr>failed := failed st + 1\<rparr> else st\<lparr>success := success st + 1\<rparr>"
  from process_row_live [OF assms, of E jira taiga taiga_statuses total_rows i r w st]
  obtain w1 where
    p: "process_row E cfg jira taiga taiga_statuses total_rows i r (w, st) = Inr (w1, ?st1)" and
    s: "project taiga \<noteq> None \<longrightarrow>
          length (filter is_story_call (trace w1)) = Suc (length (filter is_story_call (trace w)))"
    by blast
  from Cons [of "Suc i" w1 ?st1] obtain w' st' where
    q: "process_rows E cfg jira taiga taiga_statuses total_rows (Suc i) rows (w1, ?st1) = Inr (w', st')" and
    f: "failed st' = failed ?st1 +
          count_raises E cfg jira taiga taiga_statuses total_rows (Suc i) rows (w1, ?st1)" and
    t: "success st' + failed st' = success ?st1 + failed ?st1 + length rows" and
    c: "project taiga \<noteq> None \<longrightarrow>
          length (filter is_story_call (trace w')) =
            length (filter is_story_call (trace w1)) + length rows"
    by blast
  have "process_rows E cfg jira taiga taiga_statuses total_rows i (r # rows) (w, st) = Inr (w', st')"
    using p q by simp
  moreover have "failed st' =
      failed st + count_raises E cfg jira taiga taiga_statuses total_rows i (r # rows) (w, st)"
    using p f by simp
  moreover have "success st' + failed st' = success st + failed st + length (r # rows)"
    using t by simp
  moreover have "project taiga \<noteq> None \<longrightarrow>
      length (filter is_story_call (trace w')) =
        length (filter is_story_call (trace w)) + length (r # rows)"
    using s c by simp
  ultimately show ?case by blast
qed

lemma split_max_descriptor:
  assumes "59 \<notin> set date" and "59 \<notin> set author"
  shows "split_max 59 2 (date @ [59] @ author @ [59] @ body) = [date, author, body]"
proof -
  have d: "\<forall>c\<in>set date. c \<noteq> 59" and a: "\<forall>c\<in>set author. c \<noteq> 59"
    using assms by auto
  have t1: "takeWhile (\<lambda>c. c \<noteq> 59) (date @ 59 # author @ 59 # body) = date"
    using d by (simp add: takeWhile_append2)
  have d1: "dropWhile (\<lambda>c. c \<noteq> 59) (date @ 59 # author @ 59 # body) = 59 # author @ 59 # body"
    using d by (simp add: dropWhile_append2)
  have t2: "takeWhile (\<lambda>c. c \<noteq> 59) (author @ 59 # body) = author"
    using a by (simp add: takeWhile_append2)
  have d2: "dropWhile (\<lambda>c. c \<noteq> 59) (author @ 59 # body) = 59 # body"
    using a by (simp add: dropWhile_append2)
  have "split_max 59 (Suc (Suc 0)) (date @ 59 # author @ 59 # body) = [date, author, body]"
    by (simp add: t1 d1 t2 d2)
  then show ?thesis by (simp add: numeral_2_eq_2)
qed

lemma parse_comment_descriptor:
  assumes "59 \<notin> set date" and "59 \<notin> set author"
  shows "parse_comment (date @ [59] @ author @ [59] @ body) = convert_markup body"
  using split_max_descriptor [OF assms, of body] by (simp add: parse_comment_def)

lemma attachment_row_result:
  "process_row upload_refused \<lparr>DRY_RUN = False, DOWNLOAD_ATTACHMENTS = True\<rparr>
     jira_with_credentials taiga_connected Map.empty total_rows (Suc 0) attachment_row (world0, st) =
   Inr (\<lparr>trace = [AddUserStory (str ''S'') [] None None,
                     Download (str ''http://u'') (str ''f.png''),
                     Log (Downloaded (str ''f.png'')),
                     Attach 1 (str ''attachments/f.png'')],
          files = {str ''attachments/f.png''}\<rparr>,
        st\<lparr>failed := failed st + 1\<rparr>)"
proof -
  have r: "render upload_refused [] = []" by (simp add: upload_refused_def)
  show ?thesis
    unfolding process_row_def attachment_row_fields r
    by (simp add: progress_def try_body_def create_story_accepted attachment_row_cols
        handle_attachments_refused world0_def del: handle_attachments.simps)
qed

text \<open>
  Claim C3 at the input where the code departs from it: attachment download is
  on, the row has one attachment field, the download succeeds and the upload
  raises. The exception leaves the \<open>try\<close> before \<open>local_file.unlink()\<close> is reached:
  the row is counted as failed, the trace has no \<open>Unlink\<close>, and the downloaded file
  is still among the local files.
\<close>

theorem failed_upload_leaves_file:
  "process_row upload_refused \<lparr>DRY_RUN = False, DOWNLOAD_ATTACHMENTS = True\<rparr>
     jira_with_credentials taiga_connected Map.empty 1 1 attachment_row
     (world0, \<lparr>success = 0, failed = 0\<rparr>) =
   Inr (\<lparr>trace = [AddUserStory (str ''S'') [] None None,
                     Download (str ''http://u'') (str ''f.png''),
                     Log (Downloaded (str ''f.png'')),
                     Attach 1 (str ''attachments/f.png'')],
          files = {str ''attachments/f.png''}\<rparr>,
        \<lparr>success = 0, failed = 1\<rparr>)"
  using attachment_row_result [of 1 "\<lparr>success = 0, failed = 0\<rparr>"] by simp

text \<open>
  Claim C2, as the code has it. With dry-run off the loop always runs to its end;
  every row is tallied in exactly one of the two counters, so their sum is the
  number of rows, and a story creation is requested for every row, whatever
  happened to the rows before it; the failed counter is the number of rows whose
  \<open>try\<close> raised, that is whose creation call raised or, with attachment download on,
  whose attachment step raised. With attachment download off the \<open>try\<close> of a row
  raises exactly when its creation call does. A counter only grows.
\<close>

theorem batch_tally:
  assumes "\<not> DRY_RUN cfg"
  shows "(\<exists>w' st'. main_loop E cfg jira taiga taiga_statuses rows w = Inr (w', st') \<and>
            failed st' =
              count_raises E cfg jira taiga taiga_statuses (length rows) 1 rows
                (w, \<lparr>success = 0, failed = 0\<rparr>) \<and>
            success st' + failed st' = length rows \<and>
            (project taiga \<noteq> None \<longrightarrow>
               length (filter is_story_call (trace w')) =
                 length (filter is_story_call (trace w)) + length rows)) \<and>
         (\<exists>w1. process_row E cfg jira taiga taiga_statuses total_rows i r (w, st) =
            Inr (w1, if try_raises E cfg jira taiga taiga_statuses total_rows i r w
                     then st\<lparr>failed := failed st + 1\<rparr> else st\<lparr>success := success st + 1\<rparr>)) \<and>
         (\<not> DOWNLOAD_ATTACHMENTS cfg \<longrightarrow>
            isl (fst (try_body E cfg jira taiga r summary description status_ident assignee
                        points_val comments w)) =
            isl (fst (create_story E taiga summary description status_ident assignee points_val
                        comments False (trace w))))"
proof (intro conjI impI)
  show "\<exists>w' st'. main_loop E cfg jira taiga taiga_statuses rows w = Inr (w', st') \<and>
            failed st' =
              count_raises E cfg jira taiga taiga_statuses (length rows) 1 rows
                (w, \<lparr>success = 0, failed = 0\<rparr>) \<and>
            success st' + failed st' = length rows \<and>
            (project taiga \<noteq> None \<longrightarrow>
               length (filter is_story_call (trace w')) =
                 length (filter is_story_call (trace w)) + length rows)"
    using process_rows_live [OF assms, of E jira taiga taiga_statuses "length rows" 1 rows w
        "\<lparr>success = 0, failed = 0\<rparr>"]
    by (simp add: main_loop_def)
  show "\<exists>w1. process_row E cfg jira taiga taiga_statuses total_rows i r (w, st) =
            Inr (w1, if try_raises E cfg jira taiga taiga_statuses total_rows i r w
                     then st\<lparr>failed := failed st + 1\<rparr> else st\<lparr>success := success st + 1\<rparr>)"
    using process_row_live [OF assms, of E jira taiga taiga_statuses total_rows i r w st] by blast
  assume "\<not> DOWNLOAD_ATTACHMENTS cfg"
  then show "isl (fst (try_body E cfg jira taiga r summary description status_ident assignee
                        points_val comments w)) =
            isl (fst (create_story E taiga summary description status_ident assignee points_val
                        comments False (trace w)))"
    by (cases "create_story E taiga summary description status_ident assignee points_val
                 comments False (trace w)")
      (auto simp: try_body_def split: sum.split)
qed

theorem batch_tally_witness:
  "\<exists>w' st'. main_loop upload_refused \<lparr>DRY_RUN = False, DOWNLOAD_ATTACHMENTS = True\<rparr>
               jira_with_credentials taiga_connected Map.empty [attachment_row, plain_row] world0 =
             Inr (w', st') \<and>
           success st' + failed st' = 2 \<and>
           length (filter is_story_call (trace w')) = 2"
proof -
  have d: "\<not> DRY_RUN \<lparr>DRY_RUN = False, DOWNLOAD_ATTACHMENTS = True\<rparr>" by simp
  have p: "project taiga_connected \<noteq> None" by (simp add: taiga_connected_def)
  from batch_tally [OF d, of upload_refused jira_with_credentials taiga_connected Map.empty
      "[attachment_row, plain_row]" world0]
  obtain w' st' where
    "main_loop upload_refused \<lparr>DRY_RUN = False, DOWNLOAD_ATTACHMENTS = True\<rparr>
       jira_with_credentials taiga_connected Map.empty [attachment_row, plain_row] world0 =
     Inr (w', st')"
    and "success st' + failed st' = length [attachment_row, plain_row]"
    and "project taiga_connected \<noteq> None \<longrightarrow>
       length (filter is_story_call (trace w')) =
         length (filter is_story_call (trace world0)) + length [attachment_row, plain_row]"
    by blast
  with p show ?thesis by (auto simp: world0_def)
qed

text \<open>
  Against claim C2 as stated: attachment download is on and the batch is the one
  row with an attachment. Its creation call returns the story, so no record's
  creation call failed; the upload raises inside the same \<open>try\<close>, and the failed
  counter ends at 1.
\<close>

theorem failed_exceeds_creation_failures:
  "fst (create_story upload_refused taiga_connected (str ''S'') [] None None None [] False []) =
     Inr (Some 1) \<and>
   map_sum id snd
     (main_loop upload_refused \<lparr>DRY_RUN = False, DOWNLOAD_ATTACHMENTS = True\<rparr>
        jira_with_credentials taiga_connected Map.empty [attachment_row] world0) =
     Inr \<lparr>success = 0, failed = 1\<rparr>"
  by (simp add: create_story_accepted main_loop_def attachment_row_result)

text \<open>
  Claim C10. The comments of a row are the texts \<open>parse_comment\<close> returns for its
  comment fields with a value, in the order of the fields, without the empty ones:
  a field without a value is not parsed, and a field that parses to the empty
  string, as the descriptor with an empty body does, is not kept. With dry-run off
  the comments added to the story of the row are the first of these comments, in
  that order (all of them unless a call raises), so no empty comment is added.
\<close>

theorem empty_comments_dropped:
  "row_comments r =
     Inr (filter (\<lambda>t. t \<noteq> [])
            (map (\<lambda>item. parsed_comment (snd item)) (filter is_comment_field r))) \<and>
   \<not> is_comment_field (key, []) \<and>
   parse_comment [] = Inr [] \<and>
   (59 \<notin> set date \<and> 59 \<notin> set author \<longrightarrow> parse_comment (date @ [59] @ author @ [59]) = Inr []) \<and>
   (\<not> DRY_RUN cfg \<longrightarrow>
      (\<exists>w1 st1 k story.
         process_row E cfg jira taiga taiga_statuses total_rows i r (w, st) = Inr (w1, st1) \<and>
         filter is_add_comment (trace w1) =
           filter is_add_comment (trace w) @
           map (AddComment story)
             (take k (filter (\<lambda>t. t \<noteq> [])
                (map (\<lambda>item. parsed_comment (snd item)) (filter is_comment_field r))))))"
proof (intro conjI impI)
  show "row_comments r =
     Inr (filter (\<lambda>t. t \<noteq> [])
            (map (\<lambda>item. parsed_comment (snd item)) (filter is_comment_field r)))"
    by (rule row_comments_eq)
  show "\<not> is_comment_field (key, [])" by (simp add: is_comment_field_def)
  show "parse_comment [] = Inr []" by (simp add: parse_comment_def)
next
  assume "59 \<notin> set date \<and> 59 \<notin> set author"
  then show "parse_comment (date @ [59] @ author @ [59]) = Inr []"
    using parse_comment_descriptor [of date author "[]"] by (simp add: convert_markup_Nil)
next
  assume "\<not> DRY_RUN cfg"
  from process_row_live [OF this, of E jira taiga taiga_statuses total_rows i r w st]
  show "\<exists>w1 st1 k story.
         process_row E cfg jira taiga taiga_statuses total_rows i r (w, st) = Inr (w1, st1) \<and>
         filter is_add_comment (trace w1) =
           filter is_add_comment (trace w) @
           map (AddComment story)
             (take k (filter (\<lambda>t. t \<noteq> [])
                (map (\<lambda>item. parsed_comment (snd item)) (filter is_comment_field r))))"
    by blast
qed

theorem empty_comments_dropped_witness:
  "parse_comment (str ''2024-01-01 10:00;bob;'') = Inr [] \<and>
   (\<exists>w1 st1 k story.
      process_row upload_refused \<lparr>DRY_RUN = False, DOWNLOAD_ATTACHMENTS = False\<rparr>
        jira_with_credentials taiga_connected Map.empty 1 1
        [(str ''Summary'', str ''S''), (str ''Comment'', str ''2024-01-01 10:00;bob;'')]
        (world0, \<lparr>success = 0, failed = 0\<rparr>) = Inr (w1, st1) \<and>
      filter is_add_comment (trace w1) =
        map (AddComment story)
          (take k (filter (\<lambda>t. t \<noteq> [])
             (map (\<lambda>item. parsed_comment (snd item))
                (filter is_comment_field
                   [(str ''Summary'', str ''S''), (str ''Comment'', str ''2024-01-01 10:00;bob;'')])))))"
proof -
  have s: "59 \<notin> set (str ''2024-01-01 10:00'') \<and> 59 \<notin> set (str ''bob'')"
    by (simp add: str_def)
  have e: "str ''2024-01-01 10:00'' @ [59] @ str ''bob'' @ [59] = str ''2024-01-01 10:00;bob;''"
    by (simp add: str_def)
  have d: "\<not> DRY_RUN \<lparr>DRY_RUN = False, DOWNLOAD_ATTACHMENTS = False\<rparr>" by simp
  note t = empty_comments_dropped [of "[(str ''Summary'', str ''S''), (str ''Comment'', str ''2024-01-01 10:00;bob;'')]"
      "[]" "str ''2024-01-01 10:00''" "str ''bob''" "\<lparr>DRY_RUN = False, DOWNLOAD_ATTACHMENTS = False\<rparr>"
      upload_refused jira_with_credentials taiga_connected Map.empty 1 1 world0
      "\<lparr>success = 0, failed = 0\<rparr>"]
  from t s e have "parse_comment (str ''2024-01-01 10:00;bob;'') = Inr []" by simp
  moreover from t d have "\<exists>w1 st1 k story.
      process_row upload_refused \<lparr>DRY_RUN = False, DOWNLOAD_ATTACHMENTS = False\<rparr>
        jira_with_credentials taiga_connected Map.empty 1 1
        [(str ''Summary'', str ''S''), (str ''Comment'', str ''2024-01-01 10:00;bob;'')]
        (world0, \<lparr>success = 0, failed = 0\<rparr>) = Inr (w1, st1) \<and>
      filter is_add_comment (trace w1) =
        map (AddComment story)
          (take k (filter (\<lambda>t. t \<noteq> [])
             (map (\<lambda>item. parsed_comment (snd item))
                (filter is_comment_field
                   [(str ''Summary'', str ''S''), (str ''Comment'', str ''2024-01-01 10:00;bob;'')]))))"
    unfolding world0_def by simp
  ultimately show ?thesis by simp
qed

end
